theory Spec2Isabelle
  imports Main
begin

unbundle bit_operations_syntax

section \<open>Data model of the shell (cush)\<close>

text \<open>
  Process identifiers and signal numbers are C \<open>int\<close>s; job identifiers and the alive
  count are C \<open>int\<close>s as well and are kept as \<open>int\<close> so that a decrement below zero is
  visible.  A \<open>struct job *\<close> is an address into an explicit heap of jobs; the intrusive
  job list is the list of these addresses in list order and \<open>jid2job\<close> is the array of
  job pointers indexed by job id (\<open>None\<close> is the null pointer).  The terminal attribute
  set \<open>struct termios\<close> is opaque.
\<close>

type_synonym pid = int
type_synonym addr = nat
type_synonym termios = nat

datatype job_status = FOREGROUND | BACKGROUND | STOPPED | NEEDSTERMINAL | TERMINATED | DONE

record ast_command =
  argv :: "string list"
  dup_stderr_to_stdout :: bool

record ast_pipeline =
  commands :: "ast_command list"
  iored_input :: "string option"
  iored_output :: "string option"
  append_to_output :: bool
  bg_job :: bool

record job =
  pipe :: ast_pipeline
  jid :: int
  status :: job_status
  num_processes_alive :: int
  saved_tty_state :: termios
  termination_code :: int
  child_pid_array :: "pid list"
  state_saved_previously :: bool

text \<open>
  The status word that \<open>waitpid\<close> fills in is read only through the POSIX macros
  \<open>WIFEXITED\<close>, \<open>WIFSIGNALED\<close>, \<open>WIFSTOPPED\<close>, \<open>WTERMSIG\<close> and \<open>WSTOPSIG\<close>, which
  partition the status words; the datatype is that partition.  \<open>Continued\<close> stands for
  a word none of the three tests accepts.
\<close>

datatype wstatus = Exited int | Signaled int | Stopped int | Continued

text \<open>Every way the shell process can end instead of returning to its caller.\<close>

datatype crash = Segfault | Out_of_bounds | Aborted | Assert_failed | Fatal_error | Exit_shell int

text \<open>
  The state of the shell process and of what it acts on.  \<open>out\<close> is the text written to
  standard output so far and \<open>perrors\<close> the arguments of the \<open>perror\<close> calls made;
  \<open>signals_sent\<close> lists the \<open>killpg\<close> calls (process group, signal) in order;
  \<open>tty_owner\<close> is the foreground process group of the terminal and \<open>tty_state\<close> its
  attributes; \<open>shell_tty_state\<close> is the attribute set the terminal service keeps for
  the shell.  \<open>open_pipe_fds\<close> counts the pipe descriptors the shell holds open and
  \<open>live_arrays\<close> the pid and pipe arrays allocated and not yet freed.
\<close>

record shell =
  heap :: "addr \<Rightarrow> job option"
  job_list :: "addr list"
  jid2job :: "int \<Rightarrow> addr option"
  z_update_jid :: int
  error_update_code :: int
  sigchld_blocked :: bool
  tty_state :: termios
  tty_owner :: pid
  shell_tty_state :: termios
  shell_pgrp :: pid
  out :: string
  perrors :: "string list"
  signals_sent :: "(pid \<times> int) list"
  open_pipe_fds :: nat
  live_arrays :: int

definition MAXJOBS :: int where
  "MAXJOBS = 2 ^ 16"

text \<open>Signal numbers of \<open>signal.h\<close> (Linux, x86 and ARM numbering).\<close>

definition SIGHUP :: int where "SIGHUP = 1"
definition SIGINT :: int where "SIGINT = 2"
definition SIGQUIT :: int where "SIGQUIT = 3"
definition SIGABRT :: int where "SIGABRT = 6"
definition SIGFPE :: int where "SIGFPE = 8"
definition SIGKILL :: int where "SIGKILL = 9"
definition SIGSEGV :: int where "SIGSEGV = 11"
definition SIGTERM :: int where "SIGTERM = 15"
definition SIGCONT :: int where "SIGCONT = 18"
definition SIGSTOP :: int where "SIGSTOP = 19"
definition SIGTTIN :: int where "SIGTTIN = 21"
definition SIGTTOU :: int where "SIGTTOU = 22"

section \<open>Job registry\<close>

text \<open>\<open>get_job_from_jid\<close>: the array lookup, guarded by the bounds of the array.\<close>

definition get_job_from_jid :: "int \<Rightarrow> shell \<Rightarrow> addr option" where
  "get_job_from_jid i s =
     (if i > 0 \<and> i < MAXJOBS \<and> jid2job s i \<noteq> None then jid2job s i else None)"

text \<open>
  The \<open>for (int i = 1; i < MAXJOBS; i++)\<close> loop of \<open>add_job\<close>: the first index from
  \<open>i\<close> upwards whose slot is null, or \<open>None\<close> when the loop runs off the array.
\<close>

function find_free_jid :: "(int \<Rightarrow> addr option) \<Rightarrow> int \<Rightarrow> int option" where
  "find_free_jid tbl i =
     (if i < MAXJOBS then (if tbl i = None then Some i else find_free_jid tbl (i + 1))
      else None)"
  by pat_completeness auto
termination
  by (relation "measure (\<lambda>(tbl, i). nat (MAXJOBS - i))") auto

declare find_free_jid.simps [simp del]

text \<open>
  \<open>malloc\<close> hands out a block that is not live; the live job blocks are those on the
  job list.  Allocation is assumed to succeed, as the code assumes.
\<close>

definition malloc_addr :: "shell \<Rightarrow> addr" where
  "malloc_addr s = Suc (fold max (job_list s) 0)"

text \<open>
  \<open>add_job\<close>.  The block that \<open>malloc\<close> returns is not initialised: \<open>junk\<close> is its
  content, of which \<open>add_job\<close> sets \<open>pipe\<close>, \<open>num_processes_alive\<close> and \<open>jid\<close>.  The
  job is pushed on the list before the search; when no slot is free the shell aborts.
\<close>

definition add_job :: "ast_pipeline \<Rightarrow> job \<Rightarrow> shell \<Rightarrow> crash + (addr \<times> shell)" where
  "add_job p junk s =
     (let a = malloc_addr s;
          j0 = junk\<lparr>pipe := p, num_processes_alive := 0\<rparr>
      in case find_free_jid (jid2job s) 1 of
           Some i \<Rightarrow>
             Inr (a, s\<lparr>heap := (heap s)(a \<mapsto> j0\<lparr>jid := i\<rparr>),
                       job_list := job_list s @ [a],
                       jid2job := (jid2job s)(i \<mapsto> a)\<rparr>)
         | None \<Rightarrow> Inl Aborted)"

text \<open>\<open>list_remove\<close> on the job list: unlinks the element, touches nothing else.\<close>

definition list_remove :: "addr \<Rightarrow> shell \<Rightarrow> shell" where
  "list_remove a s = s\<lparr>job_list := remove1 a (job_list s)\<rparr>"

text \<open>
  \<open>delete_job\<close>: asserts \<open>jid \<noteq> -1\<close>, writes \<open>-1\<close> into the job that the slot points
  to, nulls the slot, frees the pid array, the pipeline and the job.  It does not
  unlink the job from the list; every caller does that first.
\<close>

definition delete_job :: "addr \<Rightarrow> shell \<Rightarrow> crash + shell" where
  "delete_job a s =
     (case heap s a of
        None \<Rightarrow> Inl Segfault
      | Some j \<Rightarrow>
          let i = jid j in
          if i = - 1 then Inl Assert_failed
          else if i < 0 \<or> MAXJOBS \<le> i then Inl Out_of_bounds
          else (case jid2job s i of
                  None \<Rightarrow> Inl Segfault
                | Some b \<Rightarrow>
                    (case heap s b of
                       None \<Rightarrow> Inl Segfault
                     | Some jb \<Rightarrow>
                         Inr (s\<lparr>heap := ((heap s)(b \<mapsto> jb\<lparr>jid := - 1\<rparr>))(a := None),
                                jid2job := (jid2job s)(i := None),
                                live_arrays := live_arrays s - 1\<rparr>))))"

text \<open>\<open>job_with_jid\<close>: the linear scan of the job list for a job id.\<close>

fun job_with_jid_scan :: "(addr \<Rightarrow> job option) \<Rightarrow> addr list \<Rightarrow> int \<Rightarrow> crash + addr option" where
  "job_with_jid_scan h [] i = Inr None"
| "job_with_jid_scan h (a # as) i =
     (case h a of
        None \<Rightarrow> Inl Segfault
      | Some j \<Rightarrow> if jid j = i then Inr (Some a) else job_with_jid_scan h as i)"

definition job_with_jid :: "int \<Rightarrow> shell \<Rightarrow> crash + addr option" where
  "job_with_jid i s = job_with_jid_scan (heap s) (job_list s) i"

section \<open>Status monitor\<close>

text \<open>
  The inner loop of \<open>handle_child_status\<close>: the pid is compared with the first
  \<open>list_size(&job->pipe->commands)\<close> entries of the job's pid array.  Every registered
  job carries one pid per command, so the prefix is in range.
\<close>

definition job_has_pid :: "job \<Rightarrow> pid \<Rightarrow> bool" where
  "job_has_pid j p = (p \<in> set (take (length (commands (pipe j))) (child_pid_array j)))"

text \<open>The outer loop: the first job of the list that holds the pid, or null.\<close>

fun find_job_by_pid :: "(addr \<Rightarrow> job option) \<Rightarrow> addr list \<Rightarrow> pid \<Rightarrow> crash + addr option" where
  "find_job_by_pid h [] p = Inr None"
| "find_job_by_pid h (a # as) p =
     (case h a of
        None \<Rightarrow> Inl Segfault
      | Some j \<Rightarrow> if job_has_pid j p then Inr (Some a) else find_job_by_pid h as p)"

text \<open>
  Modelled from the spec: \<open>termstate_save\<close> of the terminal-control service
  (\<open>save_attributes() -> TerminalState\<close>), whose source is not part of the repository:
  it returns the current attributes of the terminal.
\<close>

definition termstate_save :: "shell \<Rightarrow> termios" where
  "termstate_save s = tty_state s"

text \<open>
  The three updates of the job found, one per branch of \<open>handle_child_status\<close>.
\<close>

definition on_exited :: "job \<Rightarrow> job" where
  "on_exited j =
     (let j1 = j\<lparr>num_processes_alive := num_processes_alive j - 1\<rparr>
      in if num_processes_alive j1 < 1 then j1\<lparr>status := DONE\<rparr> else j1)"

definition on_signaled :: "int \<Rightarrow> job \<Rightarrow> job" where
  "on_signaled sig j =
     (let j0 = (if sig \<noteq> 0 then j\<lparr>termination_code := sig\<rparr> else j);
          j1 = j0\<lparr>num_processes_alive := num_processes_alive j0 - 1\<rparr>
      in if num_processes_alive j1 < 1 then j1\<lparr>status := TERMINATED\<rparr> else j1)"

definition on_stopped :: "int \<Rightarrow> termios \<Rightarrow> job \<Rightarrow> job" where
  "on_stopped sig tty j =
     (if sig = SIGTTOU \<or> sig = SIGTTIN then j\<lparr>status := NEEDSTERMINAL\<rparr>
      else (if status j = FOREGROUND
            then j\<lparr>saved_tty_state := tty, state_saved_previously := True\<rparr>
            else j)\<lparr>status := STOPPED\<rparr>)"

text \<open>
  \<open>handle_child_status\<close>.  The job found is dereferenced in each of the three
  branches without a null test; a null \<open>found_job\<close> is a segmentation fault there.
  The globals \<open>error_update_code\<close> and \<open>z_update_jid\<close> are written as the code does.
\<close>

definition handle_child_status :: "pid \<Rightarrow> wstatus \<Rightarrow> shell \<Rightarrow> crash + shell" where
  "handle_child_status p st s =
     (if \<not> sigchld_blocked s then Inl Assert_failed
      else case find_job_by_pid (heap s) (job_list s) p of
        Inl e \<Rightarrow> Inl e
      | Inr found \<Rightarrow>
         (case st of
            Continued \<Rightarrow> Inr s
          | Exited c \<Rightarrow>
              (case found of
                 None \<Rightarrow> Inl Segfault
               | Some a \<Rightarrow>
                  (case heap s a of
                     None \<Rightarrow> Inl Segfault
                   | Some j \<Rightarrow> Inr (s\<lparr>heap := (heap s)(a \<mapsto> on_exited j)\<rparr>)))
          | Signaled sig \<Rightarrow>
              (case found of
                 None \<Rightarrow> Inl Segfault
               | Some a \<Rightarrow>
                  (case heap s a of
                     None \<Rightarrow> Inl Segfault
                   | Some j \<Rightarrow>
                       Inr (s\<lparr>heap := (heap s)(a \<mapsto> on_signaled sig j),
                              error_update_code :=
                                (if sig \<noteq> 0 then sig else error_update_code s)\<rparr>)))
          | Stopped sig \<Rightarrow>
              (case found of
                 None \<Rightarrow> Inl Segfault
               | Some a \<Rightarrow>
                  (case heap s a of
                     None \<Rightarrow> Inl Segfault
                   | Some j \<Rightarrow>
                       Inr (s\<lparr>heap := (heap s)(a \<mapsto> on_stopped sig (termstate_save s) j),
                              z_update_jid :=
                                (if sig \<noteq> SIGTTOU \<and> sig \<noteq> SIGTTIN \<and> status j = FOREGROUND
                                 then jid j else z_update_jid s)\<rparr>)))))"

text \<open>
  The drain loop shared by the \<open>SIGCHLD\<close> handler: the list holds, in order, what the
  successive \<open>waitpid(-1, &status, WUNTRACED|WNOHANG)\<close> calls return; at its end
  \<open>waitpid\<close> returns no child and the loop stops.
\<close>

fun drain_children :: "(pid \<times> wstatus) list \<Rightarrow> shell \<Rightarrow> crash + shell" where
  "drain_children [] s = Inr s"
| "drain_children ((p, st) # evs) s =
     (case handle_child_status p st s of
        Inl e \<Rightarrow> Inl e
      | Inr s' \<Rightarrow> drain_children evs s')"

text \<open>
  \<open>sigchld_handler\<close>: the kernel delivers the signal only while it is not blocked and
  blocks it for the time the handler runs.
\<close>

definition sigchld_handler :: "(pid \<times> wstatus) list \<Rightarrow> shell \<Rightarrow> crash + shell" where
  "sigchld_handler evs s =
     (if sigchld_blocked s then Inr s
      else case drain_children evs (s\<lparr>sigchld_blocked := True\<rparr>) of
             Inl e \<Rightarrow> Inl e
           | Inr s' \<Rightarrow> Inr (s'\<lparr>sigchld_blocked := False\<rparr>))"

section \<open>Well-formed registries\<close>

text \<open>
  What the registry operations keep true of the shell's own bookkeeping: the list has
  no repetition, each listed job is live, carries an id inside the table whose slot
  points back to it, and has one pid per command of its pipeline.
\<close>

definition registry_ok :: "shell \<Rightarrow> bool" where
  "registry_ok s =
     (distinct (job_list s) \<and>
      (\<forall>a \<in> set (job_list s).
         case heap s a of
           None \<Rightarrow> False
         | Some j \<Rightarrow> 0 < jid j \<and> jid j < MAXJOBS \<and> jid2job s (jid j) = Some a \<and>
                     length (child_pid_array j) = length (commands (pipe j))))"

section \<open>Printing\<close>

text \<open>\<open>printf("%d", n)\<close>: the decimal digits, with a minus sign for a negative number.\<close>

definition digit_char :: "nat \<Rightarrow> char" where
  "digit_char n = ''0123456789'' ! n"

fun show_nat :: "nat \<Rightarrow> string" where
  "show_nat n = (if n < 10 then [digit_char n] else show_nat (n div 10) @ [digit_char (n mod 10)])"

declare show_nat.simps [simp del]

definition show_int :: "int \<Rightarrow> string" where
  "show_int i = (if i < 0 then CHR ''-'' # show_nat (nat (- i)) else show_nat (nat i))"

definition tab :: string where
  "tab = [CHR 0x09]"

definition newline :: string where
  "newline = [CHR 0x0A]"

definition get_status :: "job_status \<Rightarrow> string" where
  "get_status st =
     (case st of
        FOREGROUND \<Rightarrow> ''Foreground''
      | BACKGROUND \<Rightarrow> ''Running''
      | STOPPED \<Rightarrow> ''Stopped''
      | NEEDSTERMINAL \<Rightarrow> ''Stopped (tty)''
      | _ \<Rightarrow> ''Unknown'')"

text \<open>
  \<open>print_cmdline\<close>: the commands joined by \<open>"| "\<close>, the words of a command joined by a
  blank.  The code prints \<open>argv[0]\<close> and steps past it without looking at it, so a
  command with no word at all is a read outside the vector.
\<close>

definition cmd_text :: "ast_command \<Rightarrow> crash + string" where
  "cmd_text c =
     (case argv c of
        [] \<Rightarrow> Inl Out_of_bounds
      | a # as \<Rightarrow> Inr (a @ concat (map (\<lambda>w. '' '' @ w) as)))"

fun print_cmdline_from :: "bool \<Rightarrow> ast_command list \<Rightarrow> crash + string" where
  "print_cmdline_from first [] = Inr []"
| "print_cmdline_from first (c # cs) =
     (case cmd_text c of
        Inl e \<Rightarrow> Inl e
      | Inr t \<Rightarrow>
         (case print_cmdline_from False cs of
            Inl e \<Rightarrow> Inl e
          | Inr r \<Rightarrow> Inr ((if first then [] else ''| '') @ t @ r)))"

definition print_cmdline :: "ast_pipeline \<Rightarrow> crash + string" where
  "print_cmdline p = print_cmdline_from True (commands p)"

definition print_error_message :: "int \<Rightarrow> string" where
  "print_error_message code =
     (if code = SIGFPE then ''Floating point exception'' @ newline
      else if code = SIGSEGV then ''Segmentation fault'' @ newline
      else if code = SIGABRT then ''Aborted'' @ newline
      else if code = SIGKILL then ''Killed'' @ newline
      else ''Terminated'' @ newline)"

text \<open>\<open>print_job\<close>: the text it writes for one job.\<close>

definition print_job :: "job \<Rightarrow> crash + string" where
  "print_job j =
     (if status j = TERMINATED then Inr (print_error_message (termination_code j))
      else if status j = DONE then Inr (''['' @ show_int (jid j) @ '']'' @ tab @ ''Done'' @ newline)
      else (case print_cmdline (pipe j) of
              Inl e \<Rightarrow> Inl e
            | Inr line \<Rightarrow>
                Inr (''['' @ show_int (jid j) @ '']'' @ tab @ get_status (status j) @ tab @ tab @
                     ''('' @ line @ '')'' @ newline)))"

definition printf :: "string \<Rightarrow> shell \<Rightarrow> shell" where
  "printf txt s = s\<lparr>out := out s @ txt\<rparr>"

definition perror :: "string \<Rightarrow> shell \<Rightarrow> shell" where
  "perror what s = s\<lparr>perrors := perrors s @ [what]\<rparr>"

text \<open>
  \<open>print_all_jobs\<close>: the loop walks the list as it stood at entry; a job printed in
  state \<open>TERMINATED\<close> or \<open>DONE\<close> is unlinked and deleted before the loop moves on.
\<close>

fun print_jobs_from :: "addr list \<Rightarrow> shell \<Rightarrow> crash + shell" where
  "print_jobs_from [] s = Inr s"
| "print_jobs_from (a # as) s =
     (case heap s a of
        None \<Rightarrow> Inl Segfault
      | Some j \<Rightarrow>
         (case print_job j of
            Inl e \<Rightarrow> Inl e
          | Inr txt \<Rightarrow>
              if status j = TERMINATED \<or> status j = DONE
              then (case delete_job a (list_remove a (printf txt s)) of
                      Inl e \<Rightarrow> Inl e
                    | Inr s' \<Rightarrow> print_jobs_from as s')
              else print_jobs_from as (printf txt s)))"

definition print_all_jobs :: "shell \<Rightarrow> crash + shell" where
  "print_all_jobs s = print_jobs_from (job_list s) s"

section \<open>Terminal service and the wait loop\<close>

text \<open>
  Modelled from the spec: the terminal-control service (\<open>termstate_management\<close>), whose
  source is not part of the repository.  \<open>termstate_sample\<close> is \<open>save_attributes\<close> into
  the shell's own slot; \<open>termstate_give_terminal_to\<close> is
  \<open>transfer_ownership_to(group, optional saved_state)\<close>, which makes the group the
  owner and restores the saved attributes when given;
  \<open>termstate_give_terminal_back_to_shell\<close> is \<open>transfer_ownership_to_self\<close>, with the
  shell's saved attributes.
\<close>

definition termstate_sample :: "shell \<Rightarrow> shell" where
  "termstate_sample s = s\<lparr>shell_tty_state := tty_state s\<rparr>"

definition termstate_give_terminal_to :: "termios option \<Rightarrow> pid \<Rightarrow> shell \<Rightarrow> shell" where
  "termstate_give_terminal_to saved pgrp s =
     s\<lparr>tty_owner := pgrp, tty_state := (case saved of None \<Rightarrow> tty_state s | Some t \<Rightarrow> t)\<rparr>"

definition termstate_give_terminal_back_to_shell :: "shell \<Rightarrow> shell" where
  "termstate_give_terminal_back_to_shell s =
     termstate_give_terminal_to (Some (shell_tty_state s)) (shell_pgrp s) s"

text \<open>
  The loop of \<open>wait_for_job\<close>.  The list holds what the successive blocking
  \<open>waitpid(-1, &status, WUNTRACED)\<close> calls return; when it is used up \<open>waitpid\<close> has no
  child left to report and returns \<open>-1\<close>, which the code treats as fatal.
\<close>

fun wait_loop :: "addr \<Rightarrow> (pid \<times> wstatus) list \<Rightarrow> shell \<Rightarrow> crash + shell" where
  "wait_loop a [] s =
     (case heap s a of
        None \<Rightarrow> Inl Segfault
      | Some j \<Rightarrow>
          if status j = FOREGROUND \<and> num_processes_alive j > 0 then Inl Fatal_error else Inr s)"
| "wait_loop a ((p, st) # evs) s =
     (case heap s a of
        None \<Rightarrow> Inl Segfault
      | Some j \<Rightarrow>
          if status j = FOREGROUND \<and> num_processes_alive j > 0
          then (case handle_child_status p st s of
                  Inl e \<Rightarrow> Inl e
                | Inr s' \<Rightarrow> wait_loop a evs s')
          else Inr s)"

text \<open>The states in which the loop condition of \<open>wait_for_job\<close> is tested, in order.\<close>

fun wait_loop_states :: "addr \<Rightarrow> (pid \<times> wstatus) list \<Rightarrow> shell \<Rightarrow> shell list" where
  "wait_loop_states a [] s = [s]"
| "wait_loop_states a ((p, st) # evs) s =
     s # (case heap s a of
            None \<Rightarrow> []
          | Some j \<Rightarrow>
              if status j = FOREGROUND \<and> num_processes_alive j > 0
              then (case handle_child_status p st s of
                      Inl e \<Rightarrow> []
                    | Inr s' \<Rightarrow> wait_loop_states a evs s')
              else [])"

definition wait_for_job :: "addr \<Rightarrow> (pid \<times> wstatus) list \<Rightarrow> shell \<Rightarrow> crash + shell" where
  "wait_for_job a evs s =
     (if \<not> sigchld_blocked s then Inl Assert_failed
      else case wait_loop a evs s of
        Inl e \<Rightarrow> Inl e
      | Inr s1 \<Rightarrow>
         (case heap s1 a of
            None \<Rightarrow> Inl Segfault
          | Some j \<Rightarrow>
              let s2 = (if termination_code j = - 1 then termstate_sample s1 else s1)
              in if num_processes_alive j < 1 then delete_job a (list_remove a s2)
                 else Inr s2))"

section \<open>What the environment answers\<close>

text \<open>
  The results of the library and system calls of one stage of the spawn loop, in the
  order the code makes them.  A result other than 0 is a failure; \<open>new_pid\<close> is the pid
  that a successful \<open>posix_spawnp\<close> stores.
\<close>

record stage_result =
  attr_init :: int
  actions_init :: int
  attr_tcsetpgrp :: int
  attr_setflags :: int
  attr_setpgroup :: int
  attr_setsigmask :: int
  addopen_input :: int
  addopen_output :: int
  adddup2_file_stderr :: int
  adddup2_stdin :: int
  adddup2_stdout :: int
  adddup2_pipe_stderr :: int
  spawnp :: int
  new_pid :: pid
  actions_destroy :: int

text \<open>
  Everything one call of \<open>iterate_over_pipeline\<close> gets from outside the shell: what the
  \<open>waitpid\<close> calls of the wait loop return, what \<open>killpg\<close> returns for a group and a
  signal, the content of the block \<open>malloc\<close> returns for the job, the lines of the
  readline history, and the results of each spawn stage.
\<close>

record env =
  waitpid_results :: "(pid \<times> wstatus) list"
  killpg_result :: "pid \<Rightarrow> int \<Rightarrow> int"
  malloc_junk :: job
  history_lines :: "string list"
  stage_results :: "nat \<Rightarrow> stage_result"

section \<open>Job-control commands\<close>

text \<open>
  \<open>atoi\<close> of the C library, as glibc defines it: \<open>(int) strtol(nptr, NULL, 10)\<close>.
  \<open>strtol\<close> skips white space, takes an optional sign and then decimal digits up to
  the first character that is none, and yields a \<open>long\<close> (64 bits), \<open>LONG_MAX\<close> or
  \<open>LONG_MIN\<close> when the number read lies outside its range.  The conversion to \<open>int\<close>
  keeps the low 32 bits, read in two's complement.
\<close>

definition is_space :: "char \<Rightarrow> bool" where
  "is_space c = (c \<in> set [CHR '' '', CHR 0x09, CHR 0x0A, CHR 0x0B, CHR 0x0C, CHR 0x0D])"

definition digit_val :: "char \<Rightarrow> nat option" where
  "digit_val c =
     (let n = (of_char c :: nat) in if 48 \<le> n \<and> n \<le> 57 then Some (n - 48) else None)"

fun atoi_digits :: "int \<Rightarrow> string \<Rightarrow> int" where
  "atoi_digits acc [] = acc"
| "atoi_digits acc (c # cs) =
     (case digit_val c of None \<Rightarrow> acc | Some d \<Rightarrow> atoi_digits (10 * acc + int d) cs)"

definition LONG_MAX :: int where
  "LONG_MAX = 2 ^ 63 - 1"

definition LONG_MIN :: int where
  "LONG_MIN = - (2 ^ 63)"

definition strtol :: "string \<Rightarrow> int" where
  "strtol str =
     (let v = (case dropWhile is_space str of
                 [] \<Rightarrow> 0
               | c # r \<Rightarrow>
                   if c = CHR ''-'' then - atoi_digits 0 r
                   else if c = CHR ''+'' then atoi_digits 0 r
                   else atoi_digits 0 (c # r))
      in if v > LONG_MAX then LONG_MAX else if v < LONG_MIN then LONG_MIN else v)"

definition int_of_long :: "int \<Rightarrow> int" where
  "int_of_long v = (v + 2 ^ 31) mod 2 ^ 32 - 2 ^ 31"

definition atoi :: "string \<Rightarrow> int" where
  "atoi str = int_of_long (strtol str)"

text \<open>
  \<open>argv[n]\<close>: the vector ends with a null pointer, which is what the element right
  after the last word is.
\<close>

definition arg :: "ast_command \<Rightarrow> nat \<Rightarrow> string option" where
  "arg c n = (if n < length (argv c) then Some (argv c ! n) else None)"

definition killpg :: "env \<Rightarrow> pid \<Rightarrow> int \<Rightarrow> shell \<Rightarrow> int \<times> shell" where
  "killpg ev pg sig s = (killpg_result ev pg sig, s\<lparr>signals_sent := signals_sent s @ [(pg, sig)]\<rparr>)"

text \<open>The assignment \<open>job->status = st\<close> through a job pointer.\<close>

definition set_status :: "addr \<Rightarrow> job_status \<Rightarrow> shell \<Rightarrow> shell" where
  "set_status a st s =
     (case heap s a of
        None \<Rightarrow> s
      | Some j \<Rightarrow> s\<lparr>heap := (heap s)(a \<mapsto> j\<lparr>status := st\<rparr>)\<rparr>)"

text \<open>
  The tail shared by both paths of \<open>fg\<close>: the job is made \<open>FOREGROUND\<close>, waited for,
  and the terminal goes back to the shell.
\<close>

definition fg_wait :: "env \<Rightarrow> addr \<Rightarrow> shell \<Rightarrow> crash + shell" where
  "fg_wait ev a s =
     (case wait_for_job a (waitpid_results ev) (set_status a FOREGROUND s) of
        Inl e \<Rightarrow> Inl e
      | Inr s' \<Rightarrow> Inr (termstate_give_terminal_back_to_shell s'))"

text \<open>
  \<open>fg\<close>.  \<open>atoi(cmd->argv[1])\<close> with no argument reads through a null pointer.
\<close>

definition builtin_fg :: "env \<Rightarrow> ast_command \<Rightarrow> shell \<Rightarrow> crash + shell" where
  "builtin_fg ev c s =
     (case arg c 1 of
        None \<Rightarrow> Inl Segfault
      | Some a1 \<Rightarrow>
         (case job_with_jid (atoi a1) s of
            Inl e \<Rightarrow> Inl e
          | Inr None \<Rightarrow> Inr (printf (''fg '' @ a1 @ '': No such job'' @ newline) s)
          | Inr (Some a) \<Rightarrow>
             (case heap s a of
                None \<Rightarrow> Inl Segfault
              | Some j \<Rightarrow>
                 (case print_cmdline (pipe j) of
                    Inl e \<Rightarrow> Inl e
                  | Inr line \<Rightarrow>
                     (case child_pid_array j of
                        [] \<Rightarrow> Inl Out_of_bounds
                      | pg # _ \<Rightarrow>
                          let s1 = printf (line @ newline) s;
                              s2 = termstate_give_terminal_to
                                     (if state_saved_previously j then Some (saved_tty_state j)
                                      else None) pg s1
                          in if status j = STOPPED \<or> status j = NEEDSTERMINAL
                             then (case killpg ev pg SIGCONT s2 of
                                     (rc, s3) \<Rightarrow>
                                       if rc = - 1
                                       then Inr (termstate_give_terminal_back_to_shell s3)
                                       else fg_wait ev a s3)
                             else fg_wait ev a s2)))))"

text \<open>
  \<open>bg\<close>.  The code reads \<open>found_job->child_pid_array[0]\<close> on the line before it tests
  \<open>found_job\<close> against null, so for an unknown id the read faults and the message of
  the test is never printed.
\<close>

definition builtin_bg :: "env \<Rightarrow> ast_command \<Rightarrow> shell \<Rightarrow> crash + shell" where
  "builtin_bg ev c s =
     (case arg c 1 of
        None \<Rightarrow> Inl Segfault
      | Some a1 \<Rightarrow>
         (case job_with_jid (atoi a1) s of
            Inl e \<Rightarrow> Inl e
          | Inr None \<Rightarrow> Inl Segfault
          | Inr (Some a) \<Rightarrow>
             (case heap s a of
                None \<Rightarrow> Inl Segfault
              | Some j \<Rightarrow>
                 (case child_pid_array j of
                    [] \<Rightarrow> Inl Out_of_bounds
                  | pg # _ \<Rightarrow>
                      if status j = BACKGROUND
                      then Inr (printf (''bg: '' @ a1 @ '' already in background'' @ newline) s)
                      else (case killpg ev pg SIGCONT (set_status a BACKGROUND s) of
                              (rc, s1) \<Rightarrow> Inr (if rc = - 1 then perror ''bg:'' s1 else s1))))))"

definition builtin_stop :: "env \<Rightarrow> ast_command \<Rightarrow> shell \<Rightarrow> crash + shell" where
  "builtin_stop ev c s =
     (case arg c 1 of
        None \<Rightarrow> Inl Segfault
      | Some a1 \<Rightarrow>
         (case job_with_jid (atoi a1) s of
            Inl e \<Rightarrow> Inl e
          | Inr None \<Rightarrow> Inr (printf (''stop '' @ a1 @ '': No such job'' @ newline) s)
          | Inr (Some a) \<Rightarrow>
             (case heap s a of
                None \<Rightarrow> Inl Segfault
              | Some j \<Rightarrow>
                 (case child_pid_array j of
                    [] \<Rightarrow> Inl Out_of_bounds
                  | pg # _ \<Rightarrow>
                      (case killpg ev pg SIGSTOP s of
                         (rc, s1) \<Rightarrow> Inr (if rc = - 1 then perror ''stop:'' s1 else s1))))))"

text \<open>
  The allow-list of \<open>kill -<signum>\<close> and the two \<open>if\<close> chains under it: the signal sent
  for a number and the name printed after a successful send.
\<close>

definition kill_allowed :: "int \<Rightarrow> bool" where
  "kill_allowed n =
     (n = 1 \<or> n = 2 \<or> n = 3 \<or> n = 6 \<or> n = 9 \<or> n = 15 \<or> n = 17 \<or> n = 19 \<or> n = 23)"

definition kill_signal :: "int \<Rightarrow> int option" where
  "kill_signal n =
     (if n = 1 then Some SIGHUP
      else if n = 2 then Some SIGINT
      else if n = 3 then Some SIGQUIT
      else if n = 6 then Some SIGABRT
      else if n = 9 then Some SIGKILL
      else if n = 15 then Some SIGTERM
      else if n = 17 then Some SIGSTOP
      else if n = 19 then Some SIGSTOP
      else if n = 23 then Some SIGSTOP
      else None)"

definition kill_signal_name :: "int \<Rightarrow> string option" where
  "kill_signal_name n =
     (if n = 1 then Some ''SIGHUP''
      else if n = 2 then Some ''SIGINT''
      else if n = 3 then Some ''SIGQUIT''
      else if n = 6 then Some ''SIGABRT''
      else if n = 9 then Some ''SIGKILL''
      else if n = 15 then Some ''SIGTERM''
      else if n = 17 then Some ''SIGSTOP''
      else if n = 19 then Some ''SIGSTOP''
      else if n = 23 then Some ''SIGSTOP''
      else None)"

text \<open>
  The job pointer of \<open>kill\<close> is dereferenced without a null test in both forms.
\<close>

definition kill_target :: "int \<Rightarrow> shell \<Rightarrow> crash + pid" where
  "kill_target i s =
     (case job_with_jid i s of
        Inl e \<Rightarrow> Inl e
      | Inr None \<Rightarrow> Inl Segfault
      | Inr (Some a) \<Rightarrow>
         (case heap s a of
            None \<Rightarrow> Inl Segfault
          | Some j \<Rightarrow>
             (case child_pid_array j of
                [] \<Rightarrow> Inl Out_of_bounds
              | pg # _ \<Rightarrow> Inr pg)))"

text \<open>
  \<open>kill\<close>.  With three words or more the second is taken as \<open>-<signum>\<close>: its first
  character is skipped unread (\<open>cmd->argv[1] + 1\<close>), which for an empty word points
  past its end.
\<close>

definition builtin_kill :: "env \<Rightarrow> ast_command \<Rightarrow> shell \<Rightarrow> crash + shell" where
  "builtin_kill ev c s =
     (let n = length (argv c) in
      if n < 2 then Inr (printf (''kill: usage: kill [jid]'' @ newline) s)
      else if n < 3 then
        (case kill_target (atoi (argv c ! 1)) s of
           Inl e \<Rightarrow> Inl e
         | Inr pg \<Rightarrow>
            (case killpg ev pg SIGKILL s of
               (rc, s1) \<Rightarrow>
                 Inr (if rc = 0 then printf (''Sent kill signal'' @ newline) s1
                      else perror ''kill'' s1)))
      else
        (case argv c ! 1 of
           [] \<Rightarrow> Inl Out_of_bounds
         | dash # digits \<Rightarrow>
            let signal_to_send = atoi digits in
            (case kill_target (atoi (argv c ! 2)) s of
               Inl e \<Rightarrow> Inl e
             | Inr pg \<Rightarrow>
                 if kill_allowed signal_to_send
                 then (case kill_signal signal_to_send of
                         None \<Rightarrow> Inr (perror ''kill'' s)
                       | Some sig \<Rightarrow>
                          (case killpg ev pg sig s of
                             (rc, s1) \<Rightarrow>
                               if rc = 0
                               then Inr (case kill_signal_name signal_to_send of
                                           None \<Rightarrow> s1
                                         | Some name \<Rightarrow>
                                             printf (''Sent kill signal '' @ name @ newline) s1)
                               else Inr (perror ''kill'' s1)))
                 else Inr (perror ''kill''
                        (printf (''kill: usage: kill [-SIGNAL] [jid]'' @ newline) s)))))"

text \<open>\<open>history\<close>: one numbered line per entry of the readline history.\<close>

fun history_text :: "nat \<Rightarrow> string list \<Rightarrow> string" where
  "history_text i [] = []"
| "history_text i (l # ls) =
     show_int (int (i + 1)) @ ''  '' @ l @ newline @ history_text (i + 1) ls"

text \<open>
  \<open>check_for_builtin\<close>: the first word picks the command; the result is 1 when a
  builtin ran and 0 otherwise.
\<close>

definition ran_builtin :: "crash + shell \<Rightarrow> crash + (int \<times> shell)" where
  "ran_builtin r = (case r of Inl e \<Rightarrow> Inl e | Inr s \<Rightarrow> Inr (1, s))"

definition check_for_builtin :: "env \<Rightarrow> ast_command \<Rightarrow> shell \<Rightarrow> crash + (int \<times> shell)" where
  "check_for_builtin ev c s =
     (case argv c of
        [] \<Rightarrow> Inl Segfault
      | name # _ \<Rightarrow>
          if name = ''jobs'' then ran_builtin (print_all_jobs s)
          else if name = ''history'' then
            ran_builtin (Inr (printf (history_text 0 (history_lines ev)) s))
          else if name = ''fg'' then ran_builtin (builtin_fg ev c s)
          else if name = ''bg'' then ran_builtin (builtin_bg ev c s)
          else if name = ''stop'' then ran_builtin (builtin_stop ev c s)
          else if name = ''kill'' then ran_builtin (builtin_kill ev c s)
          else Inr (0, s))"

section \<open>Pipeline spawner\<close>

text \<open>
  The return path of a failed \<open>posix_spawnp\<close>: the terminal goes back to the shell, the
  error is reported, \<open>SIGCHLD\<close> is unblocked, the \<open>2 * (K - 1)\<close> pipe descriptors are
  closed, the file actions are destroyed, and both arrays are freed.  Closing an open
  descriptor is taken to succeed.
\<close>

definition spawn_failed_cleanup :: "stage_result \<Rightarrow> nat \<Rightarrow> shell \<Rightarrow> shell" where
  "spawn_failed_cleanup r K s =
     (let s1 = termstate_give_terminal_back_to_shell (termstate_sample s);
          s2 = perror ''posix_spawnp'' s1;
          s3 = s2\<lparr>sigchld_blocked := False\<rparr>;
          s4 = s3\<lparr>open_pipe_fds := open_pipe_fds s3 - 2 * (K - 1)\<rparr>;
          s5 = (if actions_destroy r \<noteq> 0
                then perror ''posix_spawn_file_actions_destroy'' s4 else s4)
      in s5\<lparr>live_arrays := live_arrays s5 - 2\<rparr>)"

text \<open>
  One turn of the loop over the commands of the pipeline, for the command \<open>c\<close> at
  position \<open>child_count\<close> of \<open>K\<close>.  \<open>Inl\<close> is a \<open>return 1\<close> out of the function, with
  the state it leaves behind; \<open>Inr\<close> carries the pid of the child spawned.  The four
  early returns before \<open>posix_spawnp\<close> only call \<open>perror\<close>.

  Modelled from the spec: the effect of \<open>POSIX_SPAWN_TCSETPGROUP\<close> (\<open>spawn.h\<close>, not part
  of the repository): a successful spawn of a foreground pipeline makes the child's
  process group the owner of the terminal.
\<close>

definition spawn_stage ::
  "stage_result \<Rightarrow> ast_pipeline \<Rightarrow> ast_command \<Rightarrow> nat \<Rightarrow> nat \<Rightarrow> pid \<Rightarrow> shell \<Rightarrow> shell + (pid \<times> shell)" where
  "spawn_stage r p c K child_count pgid s =
     (if attr_init r \<noteq> 0 then Inl (perror ''posix_spawnattr_init'' s)
      else if actions_init r \<noteq> 0 then Inl (perror ''posix_spawn_file_actions_init'' s)
      else
        let st0 = attr_init r;
            st1 = (if \<not> bg_job p then st0 OR attr_tcsetpgrp r else st0);
            spawn_attr_status =
              ((st1 OR attr_setflags r) OR attr_setpgroup r) OR attr_setsigmask r
        in if spawn_attr_status \<noteq> 0 then Inl (perror ''spawn_attr_status'' s)
        else
          let fa0 = actions_init r;
              fa1 = (if child_count = 0 \<and> iored_input p \<noteq> None
                     then fa0 OR addopen_input r else fa0);
              fa2 = (if Suc child_count = K \<and> iored_output p \<noteq> None
                     then (let f = addopen_output r
                           in if f = 0 \<and> dup_stderr_to_stdout c
                              then adddup2_file_stderr r else f)
                     else fa1)
          in if fa2 \<noteq> 0 then Inl (perror ''posix_spawn_file_actions_addopen'' s)
          else
            let fa3 = (if K > 1 \<and> child_count > 0 then adddup2_stdin r else fa2);
                fa4 = (if K > 1 \<and> Suc child_count < K
                       then (let f = adddup2_stdout r
                             in if f = 0 \<and> dup_stderr_to_stdout c
                                then adddup2_pipe_stderr r else f)
                       else fa3)
            in if fa4 \<noteq> 0 then Inl (perror ''posix_spawn_file_actions_adddup2'' s)
            else if spawnp r \<noteq> 0 then Inl (spawn_failed_cleanup r K s)
            else
              let s1 = (if \<not> bg_job p
                        then s\<lparr>tty_owner := (if pgid = 0 then new_pid r else pgid)\<rparr>
                        else s);
                  s2 = (if actions_destroy r \<noteq> 0
                        then perror ''posix_spawn_file_actions_destroy'' s1 else s1)
              in Inr (new_pid r, s2))"

text \<open>The loop itself: the pids are collected in order, the first one seeds the group.\<close>

fun spawn_stages ::
  "(nat \<Rightarrow> stage_result) \<Rightarrow> ast_pipeline \<Rightarrow> nat \<Rightarrow> ast_command list \<Rightarrow> nat \<Rightarrow> pid \<Rightarrow> pid list \<Rightarrow>
   shell \<Rightarrow> shell + (pid list \<times> shell)" where
  "spawn_stages rs p K [] child_count pgid pids s = Inr (pids, s)"
| "spawn_stages rs p K (c # cs) child_count pgid pids s =
     (case spawn_stage (rs child_count) p c K child_count pgid s of
        Inl s' \<Rightarrow> Inl s'
      | Inr (np, s') \<Rightarrow>
          spawn_stages rs p K cs (Suc child_count) (if pgid = 0 then np else pgid)
            (pids @ [np]) s')"

text \<open>
  Registration after the loop: \<open>add_job\<close>, then the fields the spawner sets, the status
  last.
\<close>

definition register_job :: "env \<Rightarrow> ast_pipeline \<Rightarrow> pid list \<Rightarrow> shell \<Rightarrow> crash + (addr \<times> shell)" where
  "register_job ev p pids s =
     (case add_job p (malloc_junk ev) s of
        Inl e \<Rightarrow> Inl e
      | Inr (a, s1) \<Rightarrow>
         (case heap s1 a of
            None \<Rightarrow> Inl Segfault
          | Some j \<Rightarrow>
              Inr (a, s1\<lparr>heap := (heap s1)(a \<mapsto>
                     j\<lparr>num_processes_alive := int (length pids),
                       child_pid_array := pids,
                       termination_code := - 1,
                       state_saved_previously := False,
                       status := (if bg_job p then BACKGROUND else FOREGROUND)\<rparr>)\<rparr>)))"

text \<open>
  The part of \<open>iterate_over_pipeline\<close> after the builtin check.  The pid array and the
  pipe array are allocated, \<open>K - 1\<close> pipes are opened (\<open>pipe2\<close> is taken to succeed; the
  code does not look at its result), the stages are spawned, the pipes are closed and
  their array freed, and the job is registered; a background job is announced, a
  foreground job is waited for and the terminal taken back; \<open>SIGCHLD\<close> is unblocked
  and 0 returned.
\<close>

definition spawn_pipeline :: "env \<Rightarrow> ast_pipeline \<Rightarrow> shell \<Rightarrow> crash + (int \<times> shell)" where
  "spawn_pipeline ev p s1 =
     (let K = length (commands p);
          s2 = s1\<lparr>live_arrays := live_arrays s1 + 2,
                 open_pipe_fds := open_pipe_fds s1 + 2 * (K - 1)\<rparr>
      in case spawn_stages (stage_results ev) p K (commands p) 0 0 [] s2 of
           Inl s3 \<Rightarrow> Inr (1, s3)
         | Inr (pids, s3) \<Rightarrow>
             let s4 = s3\<lparr>open_pipe_fds := open_pipe_fds s3 - 2 * (K - 1),
                        live_arrays := live_arrays s3 - 1\<rparr>
             in case register_job ev p pids s4 of
                  Inl e \<Rightarrow> Inl e
                | Inr (a, s5) \<Rightarrow>
                    if bg_job p
                    then (case (heap s5 a, pids) of
                            (Some j, p0 # _) \<Rightarrow>
                              Inr (0, (printf (''['' @ show_int (jid j) @ ''] '' @
                                         show_int p0 @ newline) s5)
                                      \<lparr>sigchld_blocked := False\<rparr>)
                          | _ \<Rightarrow> Inl Out_of_bounds)
                    else (case wait_for_job a (waitpid_results ev) s5 of
                            Inl e \<Rightarrow> Inl e
                          | Inr s6 \<Rightarrow>
                              Inr (0, (termstate_give_terminal_back_to_shell s6)
                                     \<lparr>sigchld_blocked := False\<rparr>)))"

text \<open>
  \<open>iterate_over_pipeline\<close>.  \<open>SIGCHLD\<close> is blocked first.  \<open>exit\<close> frees the jobs and
  leaves the shell.  A builtin unblocks and returns 1.  Anything else is spawned.
\<close>

definition iterate_over_pipeline :: "env \<Rightarrow> ast_pipeline \<Rightarrow> shell \<Rightarrow> crash + (int \<times> shell)" where
  "iterate_over_pipeline ev p s =
     (let s0 = s\<lparr>sigchld_blocked := True\<rparr> in
      case commands p of
        [] \<Rightarrow> Inl Segfault
      | c0 # _ \<Rightarrow>
         (case argv c0 of
            [] \<Rightarrow> Inl Segfault
          | name # _ \<Rightarrow>
              if name = ''exit'' then Inl (Exit_shell 0)
              else
               (case check_for_builtin ev c0 s0 of
                  Inl e \<Rightarrow> Inl e
                | Inr (r, s1) \<Rightarrow>
                    if r = 1 then Inr (1, s1\<lparr>sigchld_blocked := False\<rparr>)
                    else spawn_pipeline ev p s1)))"

text \<open>
  The head of the read loop of \<open>main\<close>, up to the call of \<open>readline\<close>: the assertion
  that \<open>SIGCHLD\<close> is not blocked, the pending stop notice, the pending termination
  message, and the assertion that the shell owns the terminal.
\<close>

definition prompt_checks :: "shell \<Rightarrow> crash + shell" where
  "prompt_checks s =
     (if sigchld_blocked s then Inl Assert_failed
      else
        case (if z_update_jid s \<noteq> - 1
              then (case job_with_jid (z_update_jid s) s of
                      Inl e \<Rightarrow> Inl e
                    | Inr None \<Rightarrow> Inl Segfault
                    | Inr (Some a) \<Rightarrow>
                       (case heap s a of
                          None \<Rightarrow> Inl Segfault
                        | Some j \<Rightarrow>
                           (case print_cmdline (pipe j) of
                              Inl e \<Rightarrow> Inl e
                            | Inr line \<Rightarrow>
                                Inr ((printf (''['' @ show_int (jid j) @ '']+'' @ tab @
                                        get_status (status j) @ tab @ tab @ ''('' @ line @ '')'' @
                                        newline) s)\<lparr>z_update_jid := - 1\<rparr>))))
              else Inr s) of
          Inl e \<Rightarrow> Inl e
        | Inr s1 \<Rightarrow>
            let s2 = (if error_update_code s1 \<noteq> - 1
                      then (printf (print_error_message (error_update_code s1)) s1)
                             \<lparr>error_update_code := - 1\<rparr>
                      else s1)
            in if tty_owner s2 \<noteq> shell_pgrp s2 then Inl Assert_failed else Inr s2)"

section \<open>Events, live children and the invariant of the monitor\<close>

text \<open>
  The job-level effect of one event, as the branches of \<open>handle_child_status\<close> apply
  it to the job found.
\<close>

definition job_event :: "wstatus \<Rightarrow> termios \<Rightarrow> job \<Rightarrow> job" where
  "job_event st tty j =
     (case st of
        Exited c \<Rightarrow> on_exited j
      | Signaled sig \<Rightarrow> on_signaled sig j
      | Stopped sig \<Rightarrow> on_stopped sig tty j
      | Continued \<Rightarrow> j)"

text \<open>
  A child is live until an exit or a signal death of it has been reaped.  An event list
  is consistent with a set of live children when every event is about a live child and
  a child has no event after its exit or death.
\<close>

definition is_terminal :: "wstatus \<Rightarrow> bool" where
  "is_terminal st = (case st of Exited c \<Rightarrow> True | Signaled sig \<Rightarrow> True | _ \<Rightarrow> False)"

definition job_pids :: "shell \<Rightarrow> addr \<Rightarrow> pid set" where
  "job_pids s a = (case heap s a of None \<Rightarrow> {} | Some j \<Rightarrow> set (child_pid_array j))"

fun events_for_live :: "pid set \<Rightarrow> (pid \<times> wstatus) list \<Rightarrow> bool" where
  "events_for_live L [] = True"
| "events_for_live L ((p, st) # evs) =
     (p \<in> L \<and> events_for_live (if is_terminal st then L - {p} else L) evs)"

fun live_after :: "pid set \<Rightarrow> (pid \<times> wstatus) list \<Rightarrow> pid set" where
  "live_after L [] = L"
| "live_after L ((p, st) # evs) = live_after (if is_terminal st then L - {p} else L) evs"

text \<open>
  The bookkeeping the monitor maintains: the alive count of each registered job is the
  number of its pids that are still live and is zero exactly for \<open>DONE\<close> and
  \<open>TERMINATED\<close> jobs; no pid is recorded in two registered jobs; every live child is
  recorded in a registered job.
\<close>

definition counts_ok :: "pid set \<Rightarrow> shell \<Rightarrow> bool" where
  "counts_ok L s =
     (\<forall>a \<in> set (job_list s).
        case heap s a of
          None \<Rightarrow> False
        | Some j \<Rightarrow>
            num_processes_alive j = int (card (set (child_pid_array j) \<inter> L)) \<and>
            (num_processes_alive j = 0 \<longleftrightarrow> status j = DONE \<or> status j = TERMINATED))"

definition pids_disjoint :: "shell \<Rightarrow> bool" where
  "pids_disjoint s =
     (\<forall>a \<in> set (job_list s). \<forall>b \<in> set (job_list s). a \<noteq> b \<longrightarrow> job_pids s a \<inter> job_pids s b = {})"

definition live_registered :: "pid set \<Rightarrow> shell \<Rightarrow> bool" where
  "live_registered L s = (\<forall>p \<in> L. \<exists>a \<in> set (job_list s). p \<in> job_pids s a)"

definition monitor_inv :: "pid set \<Rightarrow> shell \<Rightarrow> bool" where
  "monitor_inv L s =
     (registry_ok s \<and> pids_disjoint s \<and> live_registered L s \<and> counts_ok L s \<and>
      sigchld_blocked s)"

definition pid_registered :: "pid \<Rightarrow> shell \<Rightarrow> bool" where
  "pid_registered p s =
     (\<exists>a \<in> set (job_list s). case heap s a of None \<Rightarrow> False | Some j \<Rightarrow> job_has_pid j p)"

text \<open>The \<open>killpg\<close> calls on record once a command has returned; none if the shell died.\<close>

definition sent_by :: "crash + shell \<Rightarrow> (pid \<times> int) list" where
  "sent_by r = (case r of Inl e \<Rightarrow> [] | Inr s \<Rightarrow> signals_sent s)"

section \<open>What the listing prints and removes\<close>

text \<open>
  A job is finished when its status is \<open>TERMINATED\<close> or \<open>DONE\<close>.  The line of a job is
  what \<open>print_job\<close> writes for it.  A registry is printable when no command of a
  registered pipeline has an empty argument vector, which is what the parser delivers.
\<close>

definition job_finished :: "shell \<Rightarrow> addr \<Rightarrow> bool" where
  "job_finished s a =
     (case heap s a of None \<Rightarrow> False | Some j \<Rightarrow> status j = TERMINATED \<or> status j = DONE)"

definition listing_line :: "shell \<Rightarrow> addr \<Rightarrow> string" where
  "listing_line s a =
     (case heap s a of
        None \<Rightarrow> []
      | Some j \<Rightarrow> (case print_job j of Inl e \<Rightarrow> [] | Inr t \<Rightarrow> t))"

definition jobs_printable :: "shell \<Rightarrow> bool" where
  "jobs_printable s =
     (\<forall>a \<in> set (job_list s).
        case heap s a of None \<Rightarrow> True | Some j \<Rightarrow> \<forall>c \<in> set (commands (pipe j)). argv c \<noteq> [])"

text \<open>The text on standard output once a command has returned.\<close>

definition printed_by :: "crash + shell \<Rightarrow> string" where
  "printed_by r = (case r of Inl e \<Rightarrow> [] | Inr s \<Rightarrow> out s)"

text \<open>Whether a text occurs as a contiguous part of another.\<close>

fun starts_with :: "string \<Rightarrow> string \<Rightarrow> bool" where
  "starts_with txt [] = True"
| "starts_with [] (c # pat) = False"
| "starts_with (d # txt) (c # pat) = (d = c \<and> starts_with txt pat)"

fun occurs_in :: "string \<Rightarrow> string \<Rightarrow> bool" where
  "occurs_in pat [] = (pat = [])"
| "occurs_in pat (d # txt) = (starts_with (d # txt) pat \<or> occurs_in pat txt)"

section \<open>Foreground jobs\<close>

text \<open>
  A registered job is in the foreground when its status is \<open>FOREGROUND\<close>.  A step
  shrinks the foreground when it registers no job and puts no job into the
  foreground.
\<close>

definition is_fg :: "shell \<Rightarrow> addr \<Rightarrow> bool" where
  "is_fg s a = (case heap s a of None \<Rightarrow> False | Some j \<Rightarrow> status j = FOREGROUND)"

definition no_foreground :: "shell \<Rightarrow> bool" where
  "no_foreground s = (\<forall>a \<in> set (job_list s). \<not> is_fg s a)"

definition at_most_one_foreground :: "shell \<Rightarrow> bool" where
  "at_most_one_foreground s =
     (\<forall>a \<in> set (job_list s). \<forall>b \<in> set (job_list s). is_fg s a \<and> is_fg s b \<longrightarrow> a = b)"

definition fg_shrinks :: "shell \<Rightarrow> shell \<Rightarrow> bool" where
  "fg_shrinks s s' = (set (job_list s') \<subseteq> set (job_list s) \<and> (\<forall>b. is_fg s' b \<longrightarrow> is_fg s b))"

section \<open>Concrete registries used to instantiate the theorems\<close>

definition cmd_sleep :: ast_command where
  "cmd_sleep = \<lparr>argv = [''sleep'', ''100''], dup_stderr_to_stdout = False\<rparr>"

definition pipe_sleep :: ast_pipeline where
  "pipe_sleep = \<lparr>commands = [cmd_sleep], iored_input = None, iored_output = None,
     append_to_output = False, bg_job = False\<rparr>"

definition job_sleep :: job where
  "job_sleep = \<lparr>pipe = pipe_sleep, jid = 1, status = FOREGROUND, num_processes_alive = 1,
     saved_tty_state = 0, termination_code = - 1, child_pid_array = [100],
     state_saved_previously = False\<rparr>"

definition shell_init :: shell where
  "shell_init = \<lparr>heap = (\<lambda>a. None), job_list = [], jid2job = (\<lambda>i. None), z_update_jid = - 1,
     error_update_code = - 1, sigchld_blocked = False, tty_state = 7, tty_owner = 1,
     shell_tty_state = 7, shell_pgrp = 1, out = [], perrors = [], signals_sent = [],
     open_pipe_fds = 0, live_arrays = 0\<rparr>"

definition shell_one :: shell where
  "shell_one = shell_init\<lparr>heap := [1 \<mapsto> job_sleep], job_list := [1], jid2job := [1 \<mapsto> 1],
     sigchld_blocked := True, live_arrays := 1\<rparr>"

definition cmd_of :: "string list \<Rightarrow> ast_command" where
  "cmd_of args = \<lparr>argv = args, dup_stderr_to_stdout = False\<rparr>"

definition pipe_ls_wc :: ast_pipeline where
  "pipe_ls_wc = \<lparr>commands = [cmd_of [''ls'', ''-l''], cmd_of [''wc'']], iored_input = None,
     iored_output = None, append_to_output = False, bg_job = True\<rparr>"

definition job_ls_wc :: job where
  "job_ls_wc = \<lparr>pipe = pipe_ls_wc, jid = 2, status = BACKGROUND, num_processes_alive = 2,
     saved_tty_state = 0, termination_code = - 1, child_pid_array = [200, 201],
     state_saved_previously = False\<rparr>"

definition shell_two :: shell where
  "shell_two = shell_init\<lparr>heap := [1 \<mapsto> job_sleep, 2 \<mapsto> job_ls_wc], job_list := [1, 2],
     jid2job := [1 \<mapsto> 1, 2 \<mapsto> 2], sigchld_blocked := True, live_arrays := 2\<rparr>"

definition shell_full :: shell where
  "shell_full = shell_init\<lparr>jid2job := (\<lambda>i. Some 0)\<rparr>"

definition stage_ok :: "pid \<Rightarrow> stage_result" where
  "stage_ok np = \<lparr>attr_init = 0, actions_init = 0, attr_tcsetpgrp = 0, attr_setflags = 0,
     attr_setpgroup = 0, attr_setsigmask = 0, addopen_input = 0, addopen_output = 0,
     adddup2_file_stderr = 0, adddup2_stdin = 0, adddup2_stdout = 0, adddup2_pipe_stderr = 0,
     spawnp = 0, new_pid = np, actions_destroy = 0\<rparr>"

definition env_quiet :: env where
  "env_quiet = \<lparr>waitpid_results = [], killpg_result = (\<lambda>pg sig. 0), malloc_junk = job_sleep,
     history_lines = [], stage_results = (\<lambda>i. stage_ok (300 + int i))\<rparr>"

definition env_dup2_fails :: env where
  "env_dup2_fails = env_quiet\<lparr>stage_results :=
     (\<lambda>i. if i = 1 then (stage_ok 301)\<lparr>adddup2_stdin := 12\<rparr> else stage_ok (300 + int i))\<rparr>"

definition env_sigmask_fails :: env where
  "env_sigmask_fails = env_quiet\<lparr>stage_results := (\<lambda>i. (stage_ok 300)\<lparr>attr_setsigmask := 22\<rparr>)\<rparr>"

definition pipe_ls_wc_fg :: ast_pipeline where
  "pipe_ls_wc_fg = pipe_ls_wc\<lparr>bg_job := False\<rparr>"

definition job_done :: job where
  "job_done = job_sleep\<lparr>jid := 3, status := DONE, num_processes_alive := 0,
     child_pid_array := [90]\<rparr>"

definition shell_done :: shell where
  "shell_done = shell_init\<lparr>heap := [3 \<mapsto> job_done], job_list := [3], jid2job := [3 \<mapsto> 3],
     live_arrays := 1\<rparr>"

definition shell_listing :: shell where
  "shell_listing = shell_init\<lparr>heap := [2 \<mapsto> job_ls_wc, 3 \<mapsto> job_done], job_list := [2, 3],
     jid2job := [2 \<mapsto> 2, 3 \<mapsto> 3], live_arrays := 2\<rparr>"

definition shell_bg :: shell where
  "shell_bg = shell_init\<lparr>heap := [2 \<mapsto> job_ls_wc], job_list := [2], jid2job := [2 \<mapsto> 2],
     live_arrays := 1\<rparr>"

definition env_exits :: env where
  "env_exits = env_quiet\<lparr>waitpid_results := [(200, Exited 0), (300, Exited 0)]\<rparr>"

section \<open>Theorems: stop events and the pid lookup\<close>

lemma find_job_by_pid_Some:
  "find_job_by_pid h as p = Inr (Some a) \<Longrightarrow> a \<in> set as \<and> (\<exists>j. h a = Some j \<and> job_has_pid j p)"
  by (induction as) (auto split: option.splits if_splits)

lemma find_job_by_pid_None:
  "find_job_by_pid h as p = Inr None \<Longrightarrow> \<forall>a \<in> set as. \<exists>j. h a = Some j \<and> \<not> job_has_pid j p"
  by (induction as) (auto split: option.splits if_splits)

lemma find_job_by_pid_total:
  "\<forall>a \<in> set as. h a \<noteq> None \<Longrightarrow> \<exists>r. find_job_by_pid h as p = Inr r"
  by (induction as) (auto split: option.splits)

lemma find_job_by_pid_member:
  "\<forall>a \<in> set as. h a \<noteq> None \<Longrightarrow> b \<in> set as \<Longrightarrow> h b = Some j \<Longrightarrow> job_has_pid j p \<Longrightarrow>
   \<exists>a. find_job_by_pid h as p = Inr (Some a)"
  by (induction as) (auto split: option.splits)

section \<open>Lemmas: the monitor keeps its invariant\<close>

lemma job_event_frame [simp]:
  "pipe (job_event st tty j) = pipe j"
  "jid (job_event st tty j) = jid j"
  "child_pid_array (job_event st tty j) = child_pid_array j"
  by (auto simp: job_event_def on_exited_def on_signaled_def on_stopped_def Let_def split: wstatus.splits)

lemma job_event_not_foreground:
  "status (job_event st tty j) = FOREGROUND \<Longrightarrow> status j = FOREGROUND"
  by (auto simp: job_event_def on_exited_def on_signaled_def on_stopped_def Let_def split: wstatus.splits if_splits)

lemma handle_child_status_found:
  assumes "sigchld_blocked s"
    and "find_job_by_pid (heap s) (job_list s) p = Inr (Some a)"
    and "heap s a = Some j"
  shows "\<exists>z e. handle_child_status p st s =
           Inr (s\<lparr>heap := (heap s)(a \<mapsto> job_event st (tty_state s) j),
                  z_update_jid := z, error_update_code := e\<rparr>)"
proof -
  let ?j = "job_event st (tty_state s) j"
  have "handle_child_status p st s =
          Inr (s\<lparr>heap := (heap s)(a \<mapsto> ?j),
                 z_update_jid := (case st of
                     Stopped sig \<Rightarrow> if sig \<noteq> SIGTTOU \<and> sig \<noteq> SIGTTIN \<and> status j = FOREGROUND
                                    then jid j else z_update_jid s
                   | _ \<Rightarrow> z_update_jid s),
                 error_update_code := (case st of
                     Signaled sig \<Rightarrow> if sig \<noteq> 0 then sig else error_update_code s
                   | _ \<Rightarrow> error_update_code s)\<rparr>)"
  proof (cases st)
    case Continued
    have "(heap s)(a \<mapsto> j) = heap s" using assms(3) by auto
    then show ?thesis
      using assms Continued by (simp add: handle_child_status_def job_event_def)
  qed (use assms in \<open>simp_all add: handle_child_status_def job_event_def termstate_save_def\<close>)
  then show ?thesis by blast
qed

lemma registry_ok_live: "registry_ok s \<Longrightarrow> a \<in> set (job_list s) \<Longrightarrow> \<exists>j. heap s a = Some j"
  by (auto simp: registry_ok_def split: option.splits)

lemma registry_ok_has_pid:
  "registry_ok s \<Longrightarrow> a \<in> set (job_list s) \<Longrightarrow> heap s a = Some j \<Longrightarrow>
   job_has_pid j p \<longleftrightarrow> p \<in> set (child_pid_array j)"
  by (auto simp: registry_ok_def job_has_pid_def split: option.splits)

lemma registry_ok_job_update:
  assumes "registry_ok s" and "heap s a = Some j"
    and "jid j' = jid j" and "pipe j' = pipe j" and "child_pid_array j' = child_pid_array j"
  shows "registry_ok (s\<lparr>heap := (heap s)(a \<mapsto> j'), z_update_jid := z, error_update_code := e\<rparr>)"
  using assms unfolding registry_ok_def by (auto split: option.splits)

lemma card_live_remove:
  assumes "p \<in> set xs" and "p \<in> L"
  shows "int (card (set xs \<inter> (L - {p}))) = int (card (set xs \<inter> L)) - 1"
    and "0 < card (set xs \<inter> L)"
proof -
  have fin: "finite (set xs \<inter> L)" by simp
  have mem: "p \<in> set xs \<inter> L" using assms by simp
  show pos: "0 < card (set xs \<inter> L)" using fin mem by (auto simp: card_gt_0_iff)
  have "set xs \<inter> (L - {p}) = (set xs \<inter> L) - {p}" by auto
  then have "card (set xs \<inter> (L - {p})) = card (set xs \<inter> L) - 1"
    using fin mem by simp
  then show "int (card (set xs \<inter> (L - {p}))) = int (card (set xs \<inter> L)) - 1"
    using pos by simp
qed

lemma job_event_counts:
  assumes n: "num_processes_alive j = int (card (set (child_pid_array j) \<inter> L))"
    and iff: "num_processes_alive j = 0 \<longleftrightarrow> status j = DONE \<or> status j = TERMINATED"
    and mem: "p \<in> set (child_pid_array j)" "p \<in> L"
  shows "num_processes_alive (job_event st tty j) =
           int (card (set (child_pid_array j) \<inter> (if is_terminal st then L - {p} else L)))"
    and "num_processes_alive (job_event st tty j) = 0 \<longleftrightarrow>
           status (job_event st tty j) = DONE \<or> status (job_event st tty j) = TERMINATED"
proof -
  note c = card_live_remove [OF mem]
  have pos: "0 < num_processes_alive j" using n c(2) by simp
  then have live: "status j \<noteq> DONE" "status j \<noteq> TERMINATED" using iff by auto
  show "num_processes_alive (job_event st tty j) =
           int (card (set (child_pid_array j) \<inter> (if is_terminal st then L - {p} else L)))"
    using n c(1)
    by (cases st)
       (simp_all add: job_event_def is_terminal_def on_exited_def on_signaled_def
          on_stopped_def Let_def)
  show "num_processes_alive (job_event st tty j) = 0 \<longleftrightarrow>
           status (job_event st tty j) = DONE \<or> status (job_event st tty j) = TERMINATED"
    using pos live
    by (cases st)
       (auto simp: job_event_def on_exited_def on_signaled_def on_stopped_def Let_def)
qed

lemma find_job_by_pid_owner:
  assumes ok: "registry_ok s" and reg: "live_registered L s" and p: "p \<in> L"
  shows "\<exists>a j. find_job_by_pid (heap s) (job_list s) p = Inr (Some a) \<and>
           a \<in> set (job_list s) \<and> heap s a = Some j \<and> p \<in> set (child_pid_array j)"
proof -
  have live: "\<forall>a \<in> set (job_list s). heap s a \<noteq> None"
    using ok registry_ok_live by fastforce
  obtain b where b: "b \<in> set (job_list s)" "p \<in> job_pids s b"
    using reg p unfolding live_registered_def by blast
  then obtain jb where jb: "heap s b = Some jb" "p \<in> set (child_pid_array jb)"
    by (auto simp: job_pids_def split: option.splits)
  then have "job_has_pid jb p" using registry_ok_has_pid [OF ok b(1)] by simp
  then obtain a where a: "find_job_by_pid (heap s) (job_list s) p = Inr (Some a)"
    using find_job_by_pid_member [OF live b(1) jb(1)] by blast
  then obtain j where j: "a \<in> set (job_list s)" "heap s a = Some j" "job_has_pid j p"
    using find_job_by_pid_Some by blast
  then have "p \<in> set (child_pid_array j)" using registry_ok_has_pid [OF ok j(1,2)] by simp
  then show ?thesis using a j by blast
qed

lemma monitor_step:
  assumes inv: "monitor_inv L s" and p: "p \<in> L"
  shows "\<exists>s'. handle_child_status p st s = Inr s' \<and> job_list s' = job_list s \<and>
           monitor_inv (if is_terminal st then L - {p} else L) s'"
proof -
  let ?L = "if is_terminal st then L - {p} else L"
  have ok: "registry_ok s" and dis: "pids_disjoint s" and reg: "live_registered L s"
    and cnt: "counts_ok L s" and blk: "sigchld_blocked s"
    using inv by (simp_all add: monitor_inv_def)
  obtain a j where a: "find_job_by_pid (heap s) (job_list s) p = Inr (Some a)"
    "a \<in> set (job_list s)" "heap s a = Some j" "p \<in> set (child_pid_array j)"
    using find_job_by_pid_owner [OF ok reg p] by blast
  let ?j = "job_event st (tty_state s) j"
  obtain z e where h: "handle_child_status p st s =
      Inr (s\<lparr>heap := (heap s)(a \<mapsto> ?j), z_update_jid := z, error_update_code := e\<rparr>)"
    using handle_child_status_found [OF blk a(1) a(3)] by blast
  let ?s = "s\<lparr>heap := (heap s)(a \<mapsto> ?j), z_update_jid := z, error_update_code := e\<rparr>"
  have ok': "registry_ok ?s" by (rule registry_ok_job_update [OF ok a(3)]) simp_all
  have pids: "job_pids ?s b = job_pids s b" for b
    using a(3) by (simp add: job_pids_def)
  have dis': "pids_disjoint ?s"
    using dis unfolding pids_disjoint_def pids by simp
  have reg': "live_registered ?L ?s"
    using reg unfolding live_registered_def pids by (auto split: if_splits)
  have other: "p \<notin> job_pids s b" if "b \<in> set (job_list s)" "b \<noteq> a" for b
  proof -
    have "job_pids s a \<inter> job_pids s b = {}"
      using dis a(2) that unfolding pids_disjoint_def by blast
    moreover have "p \<in> job_pids s a" using a(3,4) by (simp add: job_pids_def)
    ultimately show ?thesis by blast
  qed
  have cnt': "counts_ok ?L ?s"
    unfolding counts_ok_def
  proof
    fix b assume b: "b \<in> set (job_list ?s)"
    then have bl: "b \<in> set (job_list s)" by simp
    show "case heap ?s b of None \<Rightarrow> False
          | Some j \<Rightarrow> num_processes_alive j = int (card (set (child_pid_array j) \<inter> ?L)) \<and>
              (num_processes_alive j = 0 \<longleftrightarrow> status j = DONE \<or> status j = TERMINATED)"
    proof (cases "b = a")
      case True
      have old: "num_processes_alive j = int (card (set (child_pid_array j) \<inter> L))"
        "num_processes_alive j = 0 \<longleftrightarrow> status j = DONE \<or> status j = TERMINATED"
        using cnt a(2,3) unfolding counts_ok_def by (auto split: option.splits)
      show ?thesis
        using True job_event_counts [OF old a(4) p, of st "tty_state s"] by simp
    next
      case False
      obtain jb where jb: "heap s b = Some jb" using registry_ok_live [OF ok bl] by blast
      have "p \<notin> set (child_pid_array jb)"
        using other [OF bl False] jb by (simp add: job_pids_def)
      then have eq: "set (child_pid_array jb) \<inter> ?L = set (child_pid_array jb) \<inter> L" by auto
      have old: "num_processes_alive jb = int (card (set (child_pid_array jb) \<inter> L)) \<and>
        (num_processes_alive jb = 0 \<longleftrightarrow> status jb = DONE \<or> status jb = TERMINATED)"
        using cnt bl jb unfolding counts_ok_def by (auto split: option.splits)
      have hb: "heap ?s b = Some jb" using False jb by simp
      have new: "num_processes_alive jb = int (card (set (child_pid_array jb) \<inter> ?L)) \<and>
        (num_processes_alive jb = 0 \<longleftrightarrow> status jb = DONE \<or> status jb = TERMINATED)"
        unfolding eq by (rule old)
      show ?thesis unfolding hb option.case by (rule new)
    qed
  qed
  have "monitor_inv ?L ?s"
    using ok' dis' reg' cnt' blk by (simp add: monitor_inv_def)
  then show ?thesis using h by simp
qed

lemma monitor_run:
  "monitor_inv L s \<Longrightarrow> events_for_live L evs \<Longrightarrow>
   \<exists>s'. drain_children evs s = Inr s' \<and> job_list s' = job_list s \<and>
        monitor_inv (live_after L evs) s'"
proof (induction evs arbitrary: L s)
  case Nil
  then show ?case by simp
next
  case (Cons ev evs)
  obtain p st where ev: "ev = (p, st)" by (cases ev)
  let ?L = "if is_terminal st then L - {p} else L"
  from Cons.prems ev have p: "p \<in> L" and rest: "events_for_live ?L evs" by simp_all
  obtain s1 where s1: "handle_child_status p st s = Inr s1" "job_list s1 = job_list s"
    "monitor_inv ?L s1"
    using monitor_step [OF Cons.prems(1) p] by blast
  obtain s' where "drain_children evs s1 = Inr s'" "job_list s' = job_list s1"
    "monitor_inv (live_after ?L evs) s'"
    using Cons.IH [OF s1(3) rest] by blast
  then show ?case using s1 ev by simp
qed


lemma shell_two_inv: "monitor_inv {100, 200, 201} shell_two"
  by (simp add: monitor_inv_def registry_ok_def pids_disjoint_def live_registered_def
      counts_ok_def job_pids_def shell_two_def shell_init_def job_sleep_def job_ls_wc_def
      pipe_sleep_def pipe_ls_wc_def cmd_sleep_def cmd_of_def MAXJOBS_def)

section \<open>Lemmas: the job registry\<close>

lemma find_free_jid_Some:
  "find_free_jid tbl i = Some k \<Longrightarrow>
   i \<le> k \<and> k < MAXJOBS \<and> tbl k = None \<and> (\<forall>m. i \<le> m \<and> m < k \<longrightarrow> tbl m \<noteq> None)"
proof (induction tbl i rule: find_free_jid.induct)
  case (1 tbl i)
  show ?case
  proof (cases "i < MAXJOBS \<and> tbl i \<noteq> None")
    case True
    then have "find_free_jid tbl (i + 1) = Some k"
      using "1.prems" by (auto simp: find_free_jid.simps [of tbl i])
    then have ih: "i + 1 \<le> k \<and> k < MAXJOBS \<and> tbl k = None \<and>
        (\<forall>m. i + 1 \<le> m \<and> m < k \<longrightarrow> tbl m \<noteq> None)"
      using "1.IH" True by blast
    have "tbl m \<noteq> None" if "i \<le> m" "m < k" for m
    proof (cases "m = i")
      case True
      then show ?thesis using \<open>i < MAXJOBS \<and> tbl i \<noteq> None\<close> by simp
    next
      case False
      then show ?thesis using ih that by simp
    qed
    then show ?thesis using ih by auto
  next
    case False
    then show ?thesis
      using "1.prems" by (auto simp: find_free_jid.simps [of tbl i] split: if_splits)
  qed
qed

lemma find_free_jid_None:
  "find_free_jid tbl i = None \<Longrightarrow> \<forall>m. i \<le> m \<and> m < MAXJOBS \<longrightarrow> tbl m \<noteq> None"
proof (induction tbl i rule: find_free_jid.induct)
  case (1 tbl i)
  show ?case
  proof (cases "i < MAXJOBS")
    case True
    then have used: "tbl i \<noteq> None" and "find_free_jid tbl (i + 1) = None"
      using "1.prems" by (auto simp: find_free_jid.simps [of tbl i] split: if_splits)
    then have ih: "\<forall>m. i + 1 \<le> m \<and> m < MAXJOBS \<longrightarrow> tbl m \<noteq> None"
      using "1.IH" True by blast
    have "tbl m \<noteq> None" if "i \<le> m" "m < MAXJOBS" for m
      using that ih used by (cases "m = i") auto
    then show ?thesis by blast
  next
    case False
    then show ?thesis by auto
  qed
qed

lemma find_free_jid_exhausted:
  "find_free_jid tbl i = None \<longleftrightarrow> (\<forall>m. i \<le> m \<and> m < MAXJOBS \<longrightarrow> tbl m \<noteq> None)"
proof
  assume "find_free_jid tbl i = None"
  then show "\<forall>m. i \<le> m \<and> m < MAXJOBS \<longrightarrow> tbl m \<noteq> None" by (rule find_free_jid_None)
next
  assume all: "\<forall>m. i \<le> m \<and> m < MAXJOBS \<longrightarrow> tbl m \<noteq> None"
  show "find_free_jid tbl i = None"
  proof (rule ccontr)
    assume "find_free_jid tbl i \<noteq> None"
    then obtain k where "find_free_jid tbl i = Some k" by auto
    then have "i \<le> k \<and> k < MAXJOBS \<and> tbl k = None" using find_free_jid_Some by blast
    then show False using all by blast
  qed
qed

lemma fold_max_mono: "(c::nat) \<le> fold max zs c"
proof (induction zs arbitrary: c)
  case Nil
  then show ?case by simp
next
  case (Cons z zs)
  have "c \<le> max z c" by simp
  also have "\<dots> \<le> fold max zs (max z c)" by (rule Cons.IH)
  finally show ?case by simp
qed

lemma fold_max_ge: "(x::nat) \<in> set xs \<Longrightarrow> x \<le> fold max xs b"
proof (induction xs arbitrary: b)
  case Nil
  then show ?case by simp
next
  case (Cons y ys)
  show ?case
  proof (cases "x = y")
    case True
    have "y \<le> max y b" by simp
    also have "\<dots> \<le> fold max ys (max y b)" by (rule fold_max_mono)
    finally show ?thesis using True by simp
  next
    case False
    then have "x \<in> set ys" using Cons.prems by simp
    then have "x \<le> fold max ys (max y b)" by (rule Cons.IH)
    then show ?thesis by simp
  qed
qed

lemma malloc_addr_fresh: "malloc_addr s \<notin> set (job_list s)"
proof
  assume "malloc_addr s \<in> set (job_list s)"
  then have "malloc_addr s \<le> fold max (job_list s) 0" by (rule fold_max_ge)
  then show False by (simp add: malloc_addr_def)
qed

lemma job_with_jid_scan_absent:
  "\<forall>a \<in> set as. \<exists>j. h a = Some j \<and> jid j \<noteq> i \<Longrightarrow> job_with_jid_scan h as i = Inr None"
  by (induction as) auto

lemma registry_ok_job:
  assumes "registry_ok s" and "a \<in> set (job_list s)" and "heap s a = Some j"
  shows "0 < jid j" and "jid j < MAXJOBS" and "jid2job s (jid j) = Some a"
    and "length (child_pid_array j) = length (commands (pipe j))"
proof -
  have "case heap s a of None \<Rightarrow> False
        | Some j \<Rightarrow> 0 < jid j \<and> jid j < MAXJOBS \<and> jid2job s (jid j) = Some a \<and>
            length (child_pid_array j) = length (commands (pipe j))"
    using assms(1,2) unfolding registry_ok_def by blast
  then show "0 < jid j" and "jid j < MAXJOBS" and "jid2job s (jid j) = Some a"
    and "length (child_pid_array j) = length (commands (pipe j))"
    using assms(3) by simp_all
qed

lemma registry_ok_jid_inj:
  assumes "registry_ok s" and "a \<in> set (job_list s)" and "b \<in> set (job_list s)"
    and "heap s a = Some ja" and "heap s b = Some jb" and "jid ja = jid jb"
  shows "a = b"
  using registry_ok_job(3) [OF assms(1,2,4)] registry_ok_job(3) [OF assms(1,3,5)] assms(6)
  by simp

lemma remove_job:
  assumes ok: "registry_ok s" and a: "a \<in> set (job_list s)" and j: "heap s a = Some j"
  shows "delete_job a (list_remove a s) =
           Inr (s\<lparr>heap := (heap s)(a := None), job_list := remove1 a (job_list s),
                  jid2job := (jid2job s)(jid j := None), live_arrays := live_arrays s - 1\<rparr>)"
    and "registry_ok (s\<lparr>heap := (heap s)(a := None), job_list := remove1 a (job_list s),
                  jid2job := (jid2job s)(jid j := None), live_arrays := live_arrays s - 1\<rparr>)"
proof -
  note props = registry_ok_job [OF ok a j]
  show "delete_job a (list_remove a s) =
           Inr (s\<lparr>heap := (heap s)(a := None), job_list := remove1 a (job_list s),
                  jid2job := (jid2job s)(jid j := None), live_arrays := live_arrays s - 1\<rparr>)"
    using props j by (simp add: delete_job_def list_remove_def Let_def)
  have dist: "distinct (job_list s)" using ok by (simp add: registry_ok_def)
  show "registry_ok (s\<lparr>heap := (heap s)(a := None), job_list := remove1 a (job_list s),
                  jid2job := (jid2job s)(jid j := None), live_arrays := live_arrays s - 1\<rparr>)"
    unfolding registry_ok_def
  proof (intro conjI ballI)
    show "distinct (job_list (s\<lparr>heap := (heap s)(a := None), job_list := remove1 a (job_list s),
                  jid2job := (jid2job s)(jid j := None), live_arrays := live_arrays s - 1\<rparr>))"
      using dist by simp
  next
    fix b
    assume "b \<in> set (job_list (s\<lparr>heap := (heap s)(a := None), job_list := remove1 a (job_list s),
                  jid2job := (jid2job s)(jid j := None), live_arrays := live_arrays s - 1\<rparr>))"
    then have b: "b \<in> set (job_list s)" "b \<noteq> a" using dist by auto
    obtain jb where jb0: "heap s b = Some jb"
      using ok b(1) unfolding registry_ok_def by (cases "heap s b") auto
    note jb = jb0 registry_ok_job [OF ok b(1) jb0]
    have "jid jb \<noteq> jid j" using registry_ok_jid_inj [OF ok b(1) a jb(1) j] b(2) by auto
    then show "case heap (s\<lparr>heap := (heap s)(a := None), job_list := remove1 a (job_list s),
                  jid2job := (jid2job s)(jid j := None), live_arrays := live_arrays s - 1\<rparr>) b of
          None \<Rightarrow> False
        | Some ja \<Rightarrow> 0 < jid ja \<and> jid ja < MAXJOBS \<and>
            jid2job (s\<lparr>heap := (heap s)(a := None), job_list := remove1 a (job_list s),
                  jid2job := (jid2job s)(jid j := None), live_arrays := live_arrays s - 1\<rparr>) (jid ja) = Some b \<and>
            length (child_pid_array ja) = length (commands (pipe ja))"
      using b jb by simp
  qed
qed

lemma add_job_result:
  "(case add_job p junk t of
      Inr (a', t') \<Rightarrow>
        \<exists>j'. heap t' a' = Some j' \<and> get_job_from_jid (jid j') t' = Some a' \<and>
             job_list t' = job_list t @ [a'] \<and> a' \<notin> set (job_list t) \<and>
             0 < jid j' \<and> jid j' < MAXJOBS \<and> jid2job t (jid j') = None \<and>
             (\<forall>k. 0 < k \<and> k < jid j' \<longrightarrow> jid2job t k \<noteq> None)
    | Inl e \<Rightarrow> e = Aborted \<and> (\<forall>k. 0 < k \<and> k < MAXJOBS \<longrightarrow> jid2job t k \<noteq> None))"
proof (cases "find_free_jid (jid2job t) 1")
  case None
  then have "\<forall>m. 1 \<le> m \<and> m < MAXJOBS \<longrightarrow> jid2job t m \<noteq> None"
    by (rule find_free_jid_None)
  then have "\<forall>k. 0 < k \<and> k < MAXJOBS \<longrightarrow> jid2job t k \<noteq> None" by auto
  then show ?thesis using None by (simp add: add_job_def)
next
  case (Some i)
  then have i: "1 \<le> i" "i < MAXJOBS" "jid2job t i = None"
    "\<forall>m. 1 \<le> m \<and> m < i \<longrightarrow> jid2job t m \<noteq> None"
    using find_free_jid_Some [of "jid2job t" 1 i] by auto
  then have low: "\<forall>k. 0 < k \<and> k < i \<longrightarrow> jid2job t k \<noteq> None" by auto
  show ?thesis
    using Some i(1,2,3) low malloc_addr_fresh [of t]
    by (simp add: add_job_def Let_def get_job_from_jid_def)
qed

lemma shell_two_ok: "registry_ok shell_two"
  using shell_two_inv by (simp add: monitor_inv_def)

section \<open>Lemmas: evaluation on the concrete registries\<close>

lemmas fixture_defs = shell_init_def shell_one_def shell_two_def job_sleep_def job_ls_wc_def
  pipe_sleep_def pipe_ls_wc_def cmd_sleep_def cmd_of_def stage_ok_def env_quiet_def
  env_dup2_fails_def env_sigmask_fails_def pipe_ls_wc_fg_def

lemmas atoi_defs = atoi_def strtol_def int_of_long_def LONG_MAX_def LONG_MIN_def is_space_def
  digit_val_def

lemma atoi_examples:
  "atoi ''1'' = 1" "atoi ''9'' = 9" "atoi ''4'' = 4" "atoi ''7'' = 7" "atoi ''17'' = 17"
  "atoi ''-3'' = - 3" "atoi '' 12x'' = 12" "atoi ''4294967305'' = 9" "atoi ''4294967297'' = 1"
  "atoi ''2147483648'' = - 2147483648" "atoi ''99999999999999999999'' = - 1"
  by (simp_all add: atoi_defs Let_def)

section \<open>Lemmas: the listing loop\<close>

lemma print_cmdline_from_total:
  "\<forall>c \<in> set cs. argv c \<noteq> [] \<Longrightarrow> \<exists>line. print_cmdline_from first cs = Inr line"
proof (induction cs arbitrary: first)
  case Nil
  then show ?case by simp
next
  case (Cons c cs)
  then obtain w ws where "argv c = w # ws" by (cases "argv c") auto
  moreover obtain r where "print_cmdline_from False cs = Inr r" using Cons by fastforce
  ultimately show ?case by (simp add: cmd_text_def)
qed

lemma print_job_total:
  "\<forall>c \<in> set (commands (pipe j)). argv c \<noteq> [] \<Longrightarrow> \<exists>t. print_job j = Inr t"
  using print_cmdline_from_total [of "commands (pipe j)" True]
  by (auto simp: print_job_def print_cmdline_def)

lemma registry_ok_frame:
  "heap s' = heap s \<Longrightarrow> job_list s' = job_list s \<Longrightarrow> jid2job s' = jid2job s \<Longrightarrow>
   registry_ok s' = registry_ok s"
  by (simp add: registry_ok_def cong: option.case_cong)

lemma registry_ok_printf [simp]: "registry_ok (printf t s) = registry_ok s"
  by (rule registry_ok_frame) (simp_all add: printf_def)

lemma printf_fields [simp]:
  "heap (printf t s) = heap s" "job_list (printf t s) = job_list s"
  "jid2job (printf t s) = jid2job s" "out (printf t s) = out s @ t"
  "signals_sent (printf t s) = signals_sent s" "sigchld_blocked (printf t s) = sigchld_blocked s"
  by (simp_all add: printf_def)

lemma print_jobs_step:
  assumes ok: "registry_ok s" and pr: "jobs_printable s"
    and a: "a \<in> set (job_list s)" and j: "heap s a = Some j"
  shows "\<exists>s1. (\<forall>as. print_jobs_from (a # as) s = print_jobs_from as s1) \<and>
           registry_ok s1 \<and> jobs_printable s1 \<and>
           out s1 = out s @ listing_line s a \<and>
           job_list s1 = filter (\<lambda>b. \<not> (b = a \<and> job_finished s a)) (job_list s) \<and>
           heap s1 = (\<lambda>b. if b = a \<and> job_finished s a then None else heap s b) \<and>
           (\<forall>i. jid2job s1 i = None \<or> jid2job s1 i = jid2job s i) \<and>
           (job_finished s a \<longrightarrow> jid2job s1 (jid j) = None)"
proof -
  have "\<forall>c \<in> set (commands (pipe j)). argv c \<noteq> []"
    using pr a j unfolding jobs_printable_def by fastforce
  then obtain t where t: "print_job j = Inr t" using print_job_total by blast
  have line: "listing_line s a = t" using j t by (simp add: listing_line_def)
  have dist: "distinct (job_list s)" using ok by (simp add: registry_ok_def)
  show ?thesis
  proof (cases "job_finished s a")
    case False
    then have nf: "\<not> (status j = TERMINATED \<or> status j = DONE)"
      using j by (simp add: job_finished_def)
    let ?s1 = "printf t s"
    have "\<forall>as. print_jobs_from (a # as) s = print_jobs_from as ?s1"
      using j t nf by simp
    moreover have "jobs_printable ?s1" using pr by (simp add: jobs_printable_def)
    moreover have "job_list ?s1 = filter (\<lambda>b. \<not> (b = a \<and> job_finished s a)) (job_list s)"
      using False by simp
    moreover have "heap ?s1 = (\<lambda>b. if b = a \<and> job_finished s a then None else heap s b)"
      using False by auto
    ultimately show ?thesis using ok line False by (intro exI [of _ ?s1]) simp
  next
    case True
    then have fin: "status j = TERMINATED \<or> status j = DONE"
      using j by (simp add: job_finished_def)
    let ?s0 = "printf t s"
    let ?s1 = "?s0\<lparr>heap := (heap ?s0)(a := None), job_list := remove1 a (job_list ?s0),
                  jid2job := (jid2job ?s0)(jid j := None), live_arrays := live_arrays ?s0 - 1\<rparr>"
    have ok0: "registry_ok ?s0" using ok by simp
    have a0: "a \<in> set (job_list ?s0)" using a by simp
    have j0: "heap ?s0 a = Some j" using j by simp
    note rm = remove_job [OF ok0 a0 j0]
    have step: "\<forall>as. print_jobs_from (a # as) s = print_jobs_from as ?s1"
      using j t fin rm(1) by simp
    have pr1: "jobs_printable ?s1"
      using pr dist unfolding jobs_printable_def by auto
    have jl: "job_list ?s1 = filter (\<lambda>b. \<not> (b = a \<and> job_finished s a)) (job_list s)"
    proof -
      have "remove1 a (job_list s) = filter (\<lambda>b. a \<noteq> b) (job_list s)"
        using dist by (simp add: distinct_remove1_removeAll removeAll_filter_not_eq)
      also have "\<dots> = filter (\<lambda>b. \<not> (b = a \<and> job_finished s a)) (job_list s)"
        using True by (intro filter_cong) auto
      finally show ?thesis by simp
    qed
    have hp: "heap ?s1 = (\<lambda>b. if b = a \<and> job_finished s a then None else heap s b)"
      using True by auto
    have "out ?s1 = out s @ listing_line s a" using line by simp
    moreover have "\<forall>i. jid2job ?s1 i = None \<or> jid2job ?s1 i = jid2job s i" by simp
    moreover have "jid2job ?s1 (jid j) = None" by simp
    ultimately show ?thesis
      using step rm(2) pr1 jl hp by (intro exI [of _ ?s1]) blast
  qed
qed

lemma listing_line_cong: "heap s1 b = heap s b \<Longrightarrow> listing_line s1 b = listing_line s b"
  by (simp add: listing_line_def)

lemma job_finished_cong: "heap s1 b = heap s b \<Longrightarrow> job_finished s1 b = job_finished s b"
  by (simp add: job_finished_def)

lemma print_jobs_from_result:
  assumes "registry_ok s" and "jobs_printable s" and "distinct as"
    and "set as \<subseteq> set (job_list s)"
  shows "\<exists>s'. print_jobs_from as s = Inr s' \<and> registry_ok s' \<and>
           out s' = out s @ concat (map (listing_line s) as) \<and>
           job_list s' = filter (\<lambda>b. \<not> (b \<in> set as \<and> job_finished s b)) (job_list s) \<and>
           heap s' = (\<lambda>b. if b \<in> set as \<and> job_finished s b then None else heap s b) \<and>
           (\<forall>i. jid2job s' i = None \<or> jid2job s' i = jid2job s i) \<and>
           (\<forall>b \<in> set as. \<forall>j. job_finished s b \<and> heap s b = Some j \<longrightarrow> jid2job s' (jid j) = None)"
  using assms
proof (induction as arbitrary: s)
  case Nil
  then show ?case by simp
next
  case (Cons a as)
  have a: "a \<in> set (job_list s)" and sub: "set as \<subseteq> set (job_list s)"
    and na: "a \<notin> set as" and das: "distinct as"
    using Cons.prems by auto
  obtain j where j: "heap s a = Some j" using registry_ok_live [OF Cons.prems(1) a] by blast
  obtain s1 where s1: "\<forall>as. print_jobs_from (a # as) s = print_jobs_from as s1"
    "registry_ok s1" "jobs_printable s1" "out s1 = out s @ listing_line s a"
    "job_list s1 = filter (\<lambda>b. \<not> (b = a \<and> job_finished s a)) (job_list s)"
    "heap s1 = (\<lambda>b. if b = a \<and> job_finished s a then None else heap s b)"
    "\<forall>i. jid2job s1 i = None \<or> jid2job s1 i = jid2job s i"
    "job_finished s a \<longrightarrow> jid2job s1 (jid j) = None"
    using print_jobs_step [OF Cons.prems(1,2) a j] by blast
  have same: "heap s1 b = heap s b" if "b \<in> set as" for b
    using s1(6) na that by auto
  have sub1: "set as \<subseteq> set (job_list s1)"
    using sub na unfolding s1(5) by auto
  obtain s' where s': "print_jobs_from as s1 = Inr s'" "registry_ok s'"
    "out s' = out s1 @ concat (map (listing_line s1) as)"
    "job_list s' = filter (\<lambda>b. \<not> (b \<in> set as \<and> job_finished s1 b)) (job_list s1)"
    "heap s' = (\<lambda>b. if b \<in> set as \<and> job_finished s1 b then None else heap s1 b)"
    "\<forall>i. jid2job s' i = None \<or> jid2job s' i = jid2job s1 i"
    "\<forall>b \<in> set as. \<forall>j. job_finished s1 b \<and> heap s1 b = Some j \<longrightarrow> jid2job s' (jid j) = None"
    using Cons.IH [OF s1(2,3) das sub1] by blast
  have r1: "print_jobs_from (a # as) s = Inr s'" using s1(1) s'(1) by simp
  have lines: "map (listing_line s1) as = map (listing_line s) as"
    by (intro map_cong refl listing_line_cong same)
  have r3: "out s' = out s @ concat (map (listing_line s) (a # as))"
    unfolding s'(3) s1(4) lines by simp
  have fin: "job_finished s1 b = job_finished s b" if "b \<in> set as" for b
    using job_finished_cong [OF same [OF that]] .
  have r4: "job_list s' = filter (\<lambda>b. \<not> (b \<in> set (a # as) \<and> job_finished s b)) (job_list s)"
  proof -
    have "job_list s' = filter (\<lambda>b. \<not> (b \<in> set as \<and> job_finished s1 b) \<and>
        \<not> (b = a \<and> job_finished s a)) (job_list s)"
      unfolding s'(4) s1(5) filter_filter by (intro filter_cong refl) auto
    also have "\<dots> = filter (\<lambda>b. \<not> (b \<in> set (a # as) \<and> job_finished s b)) (job_list s)"
      using fin by (intro filter_cong refl) auto
    finally show ?thesis .
  qed
  have r5: "heap s' = (\<lambda>b. if b \<in> set (a # as) \<and> job_finished s b then None else heap s b)"
  proof
    fix b
    show "heap s' b = (if b \<in> set (a # as) \<and> job_finished s b then None else heap s b)"
      unfolding s'(5) using fin [of b] na by (auto simp: s1(6))
  qed
  have r6: "\<forall>i. jid2job s' i = None \<or> jid2job s' i = jid2job s i"
    using s'(6) s1(7) by metis
  have r7: "jid2job s' (jid jb) = None"
    if "b \<in> set (a # as)" "job_finished s b" "heap s b = Some jb" for b jb
  proof (cases "b = a")
    case True
    then have "jb = j" using that(3) j by simp
    then have "jid2job s1 (jid jb) = None" using s1(8) that(2) True by simp
    then show ?thesis using s'(6) by metis
  next
    case False
    then have b: "b \<in> set as" using that(1) by simp
    then show ?thesis using s'(7) fin [OF b] same [OF b] that(2,3) by auto
  qed
  show ?case using r1 s'(2) r3 r4 r5 r6 r7 by blast
qed


lemmas listing_defs = shell_done_def shell_listing_def job_done_def fixture_defs

lemma shell_listing_ok: "registry_ok shell_listing" "jobs_printable shell_listing"
  by (simp_all add: registry_ok_def jobs_printable_def MAXJOBS_def listing_defs)

section \<open>Lemmas: who can be in the foreground\<close>

lemma fg_shrinks_refl [simp]: "fg_shrinks s s"
  by (simp add: fg_shrinks_def)

lemma fg_shrinks_trans: "fg_shrinks s t \<Longrightarrow> fg_shrinks t u \<Longrightarrow> fg_shrinks s u"
  unfolding fg_shrinks_def by blast

lemma fg_shrinks_same:
  "heap s' = heap s \<Longrightarrow> job_list s' = job_list s \<Longrightarrow> fg_shrinks s s'"
  by (simp add: fg_shrinks_def is_fg_def)

lemma fg_shrinks_no_foreground: "no_foreground s \<Longrightarrow> fg_shrinks s s' \<Longrightarrow> no_foreground s'"
  unfolding no_foreground_def fg_shrinks_def by blast

lemma fg_shrinks_at_most_one:
  "at_most_one_foreground s \<Longrightarrow> fg_shrinks s s' \<Longrightarrow> at_most_one_foreground s'"
  unfolding at_most_one_foreground_def fg_shrinks_def by blast

lemma no_foreground_at_most_one: "no_foreground s \<Longrightarrow> at_most_one_foreground s"
  unfolding no_foreground_def at_most_one_foreground_def by blast

lemma handle_child_status_Inr:
  assumes "handle_child_status p st s = Inr s'"
  shows "s' = s \<or>
         (\<exists>a j z e. heap s a = Some j \<and>
            s' = s\<lparr>heap := (heap s)(a \<mapsto> job_event st (tty_state s) j),
                   z_update_jid := z, error_update_code := e\<rparr>)"
proof -
  have blk: "sigchld_blocked s"
    using assms by (auto simp: handle_child_status_def split: if_splits)
  obtain found where f: "find_job_by_pid (heap s) (job_list s) p = Inr found"
    using assms blk by (auto simp: handle_child_status_def split: sum.splits)
  show ?thesis
  proof (cases "st = Continued")
    case True
    then show ?thesis using assms blk f by (simp add: handle_child_status_def)
  next
    case False
    then obtain a where a: "found = Some a"
      using assms blk f by (cases st; cases found) (auto simp: handle_child_status_def)
    then obtain j where j: "heap s a = Some j"
      using assms blk f False
      by (cases st; cases "heap s a") (auto simp: handle_child_status_def)
    obtain z e where "handle_child_status p st s =
        Inr (s\<lparr>heap := (heap s)(a \<mapsto> job_event st (tty_state s) j),
               z_update_jid := z, error_update_code := e\<rparr>)"
      using handle_child_status_found [OF blk _ j] f a by blast
    then show ?thesis using assms j by auto
  qed
qed

lemma handle_child_status_shrinks:
  assumes "handle_child_status p st s = Inr s'"
  shows "fg_shrinks s s'" and "job_list s' = job_list s"
    and "sigchld_blocked s' = sigchld_blocked s"
proof -
  from handle_child_status_Inr [OF assms]
  consider "s' = s"
    | a j z e where "heap s a = Some j"
      "s' = s\<lparr>heap := (heap s)(a \<mapsto> job_event st (tty_state s) j),
              z_update_jid := z, error_update_code := e\<rparr>"
    by blast
  then have "fg_shrinks s s' \<and> job_list s' = job_list s \<and> sigchld_blocked s' = sigchld_blocked s"
  proof cases
    case 1
    then show ?thesis by simp
  next
    case 2
    have "is_fg s' b \<longrightarrow> is_fg s b" for b
      using 2 job_event_not_foreground [of st "tty_state s" j]
      by (auto simp: is_fg_def split: if_splits)
    then show ?thesis using 2 by (simp add: fg_shrinks_def)
  qed
  then show "fg_shrinks s s'" and "job_list s' = job_list s"
    and "sigchld_blocked s' = sigchld_blocked s" by simp_all
qed

lemma delete_job_shrinks:
  assumes "delete_job a t = Inr t'"
  shows "fg_shrinks t t'" and "job_list t' = job_list t" and "\<not> is_fg t' a"
proof -
  obtain j b jb where d: "heap t a = Some j" "jid2job t (jid j) = Some b" "heap t b = Some jb"
    "t' = t\<lparr>heap := ((heap t)(b \<mapsto> jb\<lparr>jid := - 1\<rparr>))(a := None),
           jid2job := (jid2job t)(jid j := None), live_arrays := live_arrays t - 1\<rparr>"
    using assms by (auto simp: delete_job_def Let_def split: option.splits if_splits)
  have "is_fg t' c \<longrightarrow> is_fg t c" for c
    using d by (auto simp: is_fg_def split: if_splits)
  then show "fg_shrinks t t'" using d(4) by (simp add: fg_shrinks_def)
  show "job_list t' = job_list t" using d(4) by simp
  show "\<not> is_fg t' a" using d(4) by (simp add: is_fg_def)
qed

lemma list_remove_shrinks [simp]: "fg_shrinks s (list_remove a s)"
  using set_remove1_subset [of a "job_list s"] by (auto simp: fg_shrinks_def list_remove_def is_fg_def)

lemma wait_loop_result:
  "wait_loop a evs s = Inr s' \<Longrightarrow>
   fg_shrinks s s' \<and> job_list s' = job_list s \<and>
   (\<exists>j. heap s' a = Some j \<and> \<not> (status j = FOREGROUND \<and> num_processes_alive j > 0))"
proof (induction evs arbitrary: s)
  case Nil
  then show ?case by (auto split: option.splits if_splits)
next
  case (Cons ev evs)
  obtain p st where ev: "ev = (p, st)" by (cases ev)
  obtain j where j: "heap s a = Some j"
    using Cons.prems ev by (auto split: option.splits)
  show ?case
  proof (cases "status j = FOREGROUND \<and> num_processes_alive j > 0")
    case False
    then have "s' = s" using Cons.prems ev j by auto
    then show ?thesis using j False by auto
  next
    case True
    then obtain s1 where s1: "handle_child_status p st s = Inr s1" "wait_loop a evs s1 = Inr s'"
      using Cons.prems ev j by (auto split: sum.splits)
    note h = handle_child_status_shrinks [OF s1(1)]
    note ih = Cons.IH [OF s1(2)]
    show ?thesis using h ih fg_shrinks_trans by auto
  qed
qed

lemma wait_loop_states_at_most_one:
  "at_most_one_foreground s \<Longrightarrow> \<forall>u \<in> set (wait_loop_states a evs s). at_most_one_foreground u"
proof (induction evs arbitrary: s)
  case Nil
  then show ?case by simp
next
  case (Cons ev evs)
  obtain p st where ev: "ev = (p, st)" by (cases ev)
  have "at_most_one_foreground u" if "handle_child_status p st s = Inr s1"
    "u \<in> set (wait_loop_states a evs s1)" for s1 u
  proof -
    have "at_most_one_foreground s1"
      using fg_shrinks_at_most_one [OF Cons.prems handle_child_status_shrinks(1) [OF that(1)]] .
    then show ?thesis using Cons.IH that(2) by blast
  qed
  note step = this
  define rest where "rest =
    (case heap s a of
       None \<Rightarrow> []
     | Some j \<Rightarrow>
         if status j = FOREGROUND \<and> num_processes_alive j > 0
         then (case handle_child_status p st s of
                 Inl e \<Rightarrow> []
               | Inr s' \<Rightarrow> wait_loop_states a evs s')
         else [])"
  have eq: "wait_loop_states a (ev # evs) s = s # rest"
    unfolding ev rest_def by (simp only: wait_loop_states.simps)
  have "\<forall>u \<in> set rest. at_most_one_foreground u"
  proof (cases "handle_child_status p st s")
    case (Inl e)
    then have "rest = []" unfolding rest_def by (simp split: option.splits)
    then show ?thesis by (simp only: list.set ball_empty)
  next
    case (Inr s1)
    then have "rest = [] \<or> rest = wait_loop_states a evs s1"
      unfolding rest_def by (simp split: option.splits)
    then show ?thesis using step [OF Inr] by (auto simp only: list.set ball_empty)
  qed
  then show ?case unfolding eq using Cons.prems by (simp only: list.set ball_simps)
qed

lemma termstate_sample_fields [simp]:
  "heap (termstate_sample s) = heap s" "job_list (termstate_sample s) = job_list s"
  "sigchld_blocked (termstate_sample s) = sigchld_blocked s"
  by (simp_all add: termstate_sample_def)

lemma wait_for_job_result:
  assumes "wait_for_job a evs s = Inr s'"
  shows "fg_shrinks s s'" and "\<not> (a \<in> set (job_list s') \<and> is_fg s' a)"
proof -
  obtain s1 where s1: "wait_loop a evs s = Inr s1"
    using assms by (auto simp: wait_for_job_def split: if_splits sum.splits)
  from wait_loop_result [OF s1] obtain j where w: "fg_shrinks s s1" "job_list s1 = job_list s"
    "heap s1 a = Some j" "\<not> (status j = FOREGROUND \<and> num_processes_alive j > 0)" by blast
  define s2 where "s2 = (if termination_code j = - 1 then termstate_sample s1 else s1)"
  have s2: "heap s2 = heap s1" "job_list s2 = job_list s1" by (simp_all add: s2_def)
  have f2: "fg_shrinks s s2" using w(1) fg_shrinks_same [OF s2] fg_shrinks_trans by blast
  have res: "(if num_processes_alive j < 1 then delete_job a (list_remove a s2) else Inr s2) = Inr s'"
    using assms s1 w(3) by (auto simp: wait_for_job_def s2_def Let_def split: if_splits)
  show "fg_shrinks s s'" and "\<not> (a \<in> set (job_list s') \<and> is_fg s' a)"
  proof -
    have "fg_shrinks s s' \<and> \<not> (a \<in> set (job_list s') \<and> is_fg s' a)"
    proof (cases "num_processes_alive j < 1")
      case True
      then have d: "delete_job a (list_remove a s2) = Inr s'" using res by simp
      note ds = delete_job_shrinks [OF d]
      have "fg_shrinks s2 s'" using fg_shrinks_trans [OF list_remove_shrinks ds(1)] .
      then show ?thesis using f2 ds(3) fg_shrinks_trans by blast
    next
      case False
      then have "s' = s2" using res by simp
      moreover have "\<not> is_fg s2 a" using False w(3,4) s2 by (simp add: is_fg_def)
      ultimately show ?thesis using f2 by simp
    qed
    then show "fg_shrinks s s'" and "\<not> (a \<in> set (job_list s') \<and> is_fg s' a)" by simp_all
  qed
qed

lemma wait_after_foreground:
  assumes nf: "\<forall>b \<in> set (job_list s). b \<noteq> a \<longrightarrow> \<not> is_fg s b"
    and w: "wait_for_job a evs s = Inr s'"
  shows "no_foreground s'"
  unfolding no_foreground_def
proof
  fix b assume b: "b \<in> set (job_list s')"
  note r = wait_for_job_result [OF w]
  show "\<not> is_fg s' b"
  proof (cases "b = a")
    case True
    then show ?thesis using r(2) b by simp
  next
    case False
    have "b \<in> set (job_list s)" using r(1) b unfolding fg_shrinks_def by blast
    then have "\<not> is_fg s b" using nf False by simp
    then show ?thesis using r(1) unfolding fg_shrinks_def by blast
  qed
qed

lemma perror_fields [simp]:
  "heap (perror w s) = heap s" "job_list (perror w s) = job_list s"
  "sigchld_blocked (perror w s) = sigchld_blocked s"
  by (simp_all add: perror_def)

lemma killpg_fields [simp]:
  "heap (snd (killpg ev pg sig s)) = heap s" "job_list (snd (killpg ev pg sig s)) = job_list s"
  "sigchld_blocked (snd (killpg ev pg sig s)) = sigchld_blocked s"
  by (simp_all add: killpg_def)

lemma give_terminal_fields [simp]:
  "heap (termstate_give_terminal_to saved pg s) = heap s"
  "job_list (termstate_give_terminal_to saved pg s) = job_list s"
  "sigchld_blocked (termstate_give_terminal_to saved pg s) = sigchld_blocked s"
  "heap (termstate_give_terminal_back_to_shell s) = heap s"
  "job_list (termstate_give_terminal_back_to_shell s) = job_list s"
  "sigchld_blocked (termstate_give_terminal_back_to_shell s) = sigchld_blocked s"
  by (simp_all add: termstate_give_terminal_to_def termstate_give_terminal_back_to_shell_def)

lemma no_foreground_frame:
  "no_foreground s \<Longrightarrow> heap s' = heap s \<Longrightarrow> job_list s' = job_list s \<Longrightarrow> no_foreground s'"
  by (simp add: no_foreground_def is_fg_def)

lemma set_status_fields [simp]:
  "job_list (set_status a st s) = job_list s"
  "sigchld_blocked (set_status a st s) = sigchld_blocked s"
  by (simp_all add: set_status_def split: option.splits)

lemma set_status_other: "b \<noteq> a \<Longrightarrow> is_fg (set_status a st s) b = is_fg s b"
  by (simp add: set_status_def is_fg_def split: option.splits)

lemma set_status_shrinks: "st \<noteq> FOREGROUND \<Longrightarrow> fg_shrinks s (set_status a st s)"
  by (auto simp: fg_shrinks_def set_status_def is_fg_def split: option.splits if_splits)

lemma print_jobs_from_shrinks: "print_jobs_from as s = Inr s' \<Longrightarrow> fg_shrinks s s'"
proof (induction as arbitrary: s)
  case Nil
  then show ?case by simp
next
  case (Cons a as)
  obtain j where j: "heap s a = Some j" using Cons.prems by (auto split: option.splits)
  obtain t where t: "print_job j = Inr t" using Cons.prems j by (auto split: sum.splits)
  have p: "fg_shrinks s (printf t s)" by (rule fg_shrinks_same) simp_all
  show ?case
  proof (cases "status j = TERMINATED \<or> status j = DONE")
    case True
    then obtain s1 where s1: "delete_job a (list_remove a (printf t s)) = Inr s1"
      "print_jobs_from as s1 = Inr s'"
      using Cons.prems j t by (auto split: sum.splits)
    have "fg_shrinks (printf t s) s1"
      using fg_shrinks_trans [OF list_remove_shrinks delete_job_shrinks(1) [OF s1(1)]] .
    then show ?thesis using p Cons.IH [OF s1(2)] fg_shrinks_trans by blast
  next
    case False
    then have "print_jobs_from as (printf t s) = Inr s'" using Cons.prems j t by auto
    then show ?thesis using p Cons.IH fg_shrinks_trans by blast
  qed
qed

lemma sum_bind_Inr:
  "(case x of Inl e \<Rightarrow> Inl e | Inr v \<Rightarrow> f v) = Inr r \<Longrightarrow> \<exists>v. x = Inr v \<and> f v = Inr r"
  by (cases x) simp_all

lemma fg_wait_no_foreground:
  assumes "no_foreground s" and "fg_wait ev a s = Inr s'"
  shows "no_foreground s'"
proof -
  from assms(2) obtain s1 where
    w: "wait_for_job a (waitpid_results ev) (set_status a FOREGROUND s) = Inr s1"
    and e: "Inr (termstate_give_terminal_back_to_shell s1) = (Inr s' :: crash + shell)"
    unfolding fg_wait_def by (blast dest: sum_bind_Inr)
  from e have "termstate_give_terminal_back_to_shell s1 = s'" by (rule Inr_inject)
  then have s1: "wait_for_job a (waitpid_results ev) (set_status a FOREGROUND s) = Inr s1"
    "s' = termstate_give_terminal_back_to_shell s1"
    using w by simp_all
  have "\<forall>b \<in> set (job_list (set_status a FOREGROUND s)). b \<noteq> a \<longrightarrow>
      \<not> is_fg (set_status a FOREGROUND s) b"
    using assms(1) by (simp add: no_foreground_def set_status_other)
  then have "no_foreground s1" using s1(1) by (rule wait_after_foreground)
  then show ?thesis unfolding s1(2) by (rule no_foreground_frame) simp_all
qed

lemma builtin_fg_no_foreground:
  assumes nf: "no_foreground s" and r: "builtin_fg ev c s = Inr s'"
  shows "no_foreground s'"
proof -
  obtain a1 where a1: "arg c 1 = Some a1"
    using r by (cases "arg c 1") (simp_all add: builtin_fg_def)
  obtain found where f: "job_with_jid (atoi a1) s = Inr found"
    using r a1 by (cases "job_with_jid (atoi a1) s") (simp_all add: builtin_fg_def)
  show ?thesis
  proof (cases found)
    case None
    then have "s' = printf (''fg '' @ a1 @ '': No such job'' @ newline) s"
      using r a1 f by (simp add: builtin_fg_def)
    then show ?thesis using nf by (auto intro: no_foreground_frame)
  next
    case (Some a)
    obtain j where j: "heap s a = Some j"
      using r a1 f Some by (cases "heap s a") (simp_all add: builtin_fg_def)
    obtain line where l: "print_cmdline (pipe j) = Inr line"
      using r a1 f Some j by (cases "print_cmdline (pipe j)") (simp_all add: builtin_fg_def)
    obtain pg rest where pg: "child_pid_array j = pg # rest"
      using r a1 f Some j l by (cases "child_pid_array j") (simp_all add: builtin_fg_def)
    define s2 where "s2 = termstate_give_terminal_to
        (if state_saved_previously j then Some (saved_tty_state j) else None) pg
        (printf (line @ newline) s)"
    define s3 where "s3 = snd (killpg ev pg SIGCONT s2)"
    define rc where "rc = fst (killpg ev pg SIGCONT s2)"
    have nf2: "no_foreground s2" using nf unfolding s2_def by (rule no_foreground_frame) simp_all
    have nf3: "no_foreground s3" using nf2 unfolding s3_def by (rule no_foreground_frame) simp_all
    have k: "killpg ev pg SIGCONT s2 = (rc, s3)" by (simp add: rc_def s3_def)
    have body: "(if status j = STOPPED \<or> status j = NEEDSTERMINAL
                 then (if rc = - 1 then Inr (termstate_give_terminal_back_to_shell s3)
                       else fg_wait ev a s3)
                 else fg_wait ev a s2) = Inr s'"
      using r
      by (simp only: builtin_fg_def a1 f \<open>found = Some a\<close> j l pg option.case sum.case
          list.case Let_def s2_def [symmetric] k prod.case)
    show ?thesis
    proof (cases "status j = STOPPED \<or> status j = NEEDSTERMINAL")
      case False
      then have "fg_wait ev a s2 = Inr s'" using body by simp
      then show ?thesis using nf2 fg_wait_no_foreground by blast
    next
      case True
      show ?thesis
      proof (cases "rc = - 1")
        case True
        then have "s' = termstate_give_terminal_back_to_shell s3"
          using body \<open>status j = STOPPED \<or> status j = NEEDSTERMINAL\<close> by simp
        then show ?thesis using nf3 by (auto intro: no_foreground_frame)
      next
        case False
        then have "fg_wait ev a s3 = Inr s'"
          using body \<open>status j = STOPPED \<or> status j = NEEDSTERMINAL\<close> by simp
        then show ?thesis using nf3 fg_wait_no_foreground by blast
      qed
    qed
  qed
qed

lemma builtin_bg_shrinks:
  assumes r: "builtin_bg ev c s = Inr s'"
  shows "fg_shrinks s s'"
proof -
  obtain a1 where a1: "arg c 1 = Some a1"
    using r by (cases "arg c 1") (simp_all add: builtin_bg_def)
  obtain found where f: "job_with_jid (atoi a1) s = Inr found"
    using r a1 by (cases "job_with_jid (atoi a1) s") (simp_all add: builtin_bg_def)
  obtain a where a: "found = Some a"
    using r a1 f by (cases found) (simp_all add: builtin_bg_def)
  obtain j where j: "heap s a = Some j"
    using r a1 f a by (cases "heap s a") (simp_all add: builtin_bg_def)
  obtain pg rest where pg: "child_pid_array j = pg # rest"
    using r a1 f a j by (cases "child_pid_array j") (simp_all add: builtin_bg_def)
  define s1 where "s1 = snd (killpg ev pg SIGCONT (set_status a BACKGROUND s))"
  have f1: "fg_shrinks s s1"
    unfolding s1_def
    by (rule fg_shrinks_trans [OF set_status_shrinks fg_shrinks_same]) simp_all
  have f2: "fg_shrinks s (perror ''bg:'' s1)"
    by (rule fg_shrinks_trans [OF f1 fg_shrinks_same]) simp_all
  have f3: "fg_shrinks s (printf (''bg: '' @ a1 @ '' already in background'' @ newline) s)"
    by (rule fg_shrinks_same) simp_all
  have "s' = printf (''bg: '' @ a1 @ '' already in background'' @ newline) s \<or>
        s' = perror ''bg:'' s1 \<or> s' = s1"
    using r a1 f a j pg
    by (simp add: builtin_bg_def s1_def case_prod_beta split: if_splits)
  then show ?thesis using f1 f2 f3 by blast
qed

lemma builtin_stop_same:
  assumes r: "builtin_stop ev c s = Inr s'"
  shows "heap s' = heap s \<and> job_list s' = job_list s"
proof -
  obtain a1 where a1: "arg c 1 = Some a1"
    using r by (auto simp: builtin_stop_def split: option.splits)
  obtain found where f: "job_with_jid (atoi a1) s = Inr found"
    using r a1 by (auto simp: builtin_stop_def split: sum.splits)
  show ?thesis
  proof (cases found)
    case None
    then show ?thesis using r a1 f by (auto simp: builtin_stop_def)
  next
    case (Some a)
    obtain j where j: "heap s a = Some j"
      using r a1 f Some by (auto simp: builtin_stop_def split: option.splits)
    obtain pg rest where pg: "child_pid_array j = pg # rest"
      using r a1 f Some j by (auto simp: builtin_stop_def split: list.splits)
    define s1 where "s1 = snd (killpg ev pg SIGSTOP s)"
    have "s' = perror ''stop:'' s1 \<or> s' = s1"
      using r a1 f Some j pg unfolding builtin_stop_def s1_def
      by (auto simp: case_prod_beta split: if_splits)
    then show ?thesis by (auto simp: s1_def)
  qed
qed

lemma builtin_stop_shrinks: "builtin_stop ev c s = Inr s' \<Longrightarrow> fg_shrinks s s'"
  using builtin_stop_same fg_shrinks_same by blast

lemma kill_send_same:
  assumes "(case killpg ev pg sig s of (rc, s1) \<Rightarrow> if rc = 0 then Inr (f s1) else Inr (g s1)) = Inr s'"
    and "\<And>t. heap (f t) = heap t \<and> job_list (f t) = job_list t"
    and "\<And>t. heap (g t) = heap t \<and> job_list (g t) = job_list t"
  shows "heap s' = heap s \<and> job_list s' = job_list s"
proof -
  define s1 where "s1 = snd (killpg ev pg sig s)"
  have "s' = f s1 \<or> s' = g s1"
    using assms(1) unfolding s1_def by (auto simp: case_prod_beta split: if_splits)
  then show ?thesis using assms(2,3) by (auto simp: s1_def)
qed

lemma builtin_kill_same:
  assumes r: "builtin_kill ev c s = Inr s'"
  shows "heap s' = heap s \<and> job_list s' = job_list s"
proof -
  consider (short) "length (argv c) < 2" | (two) "\<not> length (argv c) < 2" "length (argv c) < 3"
    | (three) "\<not> length (argv c) < 2" "\<not> length (argv c) < 3" by blast
  then show ?thesis
  proof cases
    case short
    then show ?thesis using r by (auto simp: builtin_kill_def)
  next
    case two
    obtain pg where pg: "kill_target (atoi (argv c ! 1)) s = Inr pg"
      using r two by (auto simp: builtin_kill_def split: sum.splits)
    have "(case killpg ev pg SIGKILL s of (rc, s1) \<Rightarrow>
             if rc = 0 then Inr (printf (''Sent kill signal'' @ newline) s1)
             else Inr (perror ''kill'' s1)) = Inr s'"
      using r two pg by (auto simp: builtin_kill_def split: prod.splits if_splits)
    then show ?thesis by (rule kill_send_same) simp_all
  next
    case three
    obtain dash digits where d: "argv c ! 1 = dash # digits"
      using r three by (auto simp: builtin_kill_def split: list.splits)
    obtain pg where pg: "kill_target (atoi (argv c ! 2)) s = Inr pg"
      using r three d by (auto simp: builtin_kill_def Let_def split: sum.splits)
    show ?thesis
    proof (cases "kill_allowed (atoi digits)")
      case False
      then have "s' = perror ''kill'' (printf (''kill: usage: kill [-SIGNAL] [jid]'' @ newline) s)"
        using r three d pg by (auto simp: builtin_kill_def Let_def)
      then show ?thesis by simp
    next
      case True
      show ?thesis
      proof (cases "kill_signal (atoi digits)")
        case None
        then have "s' = perror ''kill'' s"
          using r three d pg True by (auto simp: builtin_kill_def Let_def)
        then show ?thesis by simp
      next
        case (Some sig)
        have "(case killpg ev pg sig s of (rc, s1) \<Rightarrow>
             if rc = 0 then Inr (case kill_signal_name (atoi digits) of None \<Rightarrow> s1
                 | Some name \<Rightarrow> printf (''Sent kill signal '' @ name @ newline) s1)
             else Inr (perror ''kill'' s1)) = Inr s'"
          using r three d pg True Some
          by (auto simp: builtin_kill_def Let_def split: prod.splits if_splits)
        then show ?thesis by (rule kill_send_same) (simp_all split: option.splits)
      qed
    qed
  qed
qed

lemma builtin_kill_shrinks: "builtin_kill ev c s = Inr s' \<Longrightarrow> fg_shrinks s s'"
  using builtin_kill_same fg_shrinks_same by blast

lemma check_for_builtin_no_foreground:
  assumes nf: "no_foreground s" and r: "check_for_builtin ev c s = Inr (k, s')"
  shows "no_foreground s'" and "k \<noteq> 1 \<longrightarrow> s' = s"
proof -
  obtain name rest where n: "argv c = name # rest"
    using r by (auto simp: check_for_builtin_def split: list.splits)
  consider (jobs) "print_all_jobs s = Inr s'" "k = 1"
    | (hist) "s' = printf (history_text 0 (history_lines ev)) s" "k = 1"
    | (fg) "builtin_fg ev c s = Inr s'" "k = 1"
    | (bg) "builtin_bg ev c s = Inr s'" "k = 1"
    | (stop) "builtin_stop ev c s = Inr s'" "k = 1"
    | (kill) "builtin_kill ev c s = Inr s'" "k = 1"
    | (none) "s' = s" "k = 0"
    using r n
    by (auto simp: check_for_builtin_def ran_builtin_def split: if_splits sum.splits)
  then have "no_foreground s' \<and> (k \<noteq> 1 \<longrightarrow> s' = s)"
  proof cases
    case jobs
    then show ?thesis
      using nf print_jobs_from_shrinks fg_shrinks_no_foreground
      by (auto simp: print_all_jobs_def)
  next
    case hist
    then show ?thesis using nf by (auto intro: no_foreground_frame)
  next
    case fg
    then show ?thesis using nf builtin_fg_no_foreground by blast
  next
    case bg
    then show ?thesis using nf builtin_bg_shrinks fg_shrinks_no_foreground by blast
  next
    case stop
    then show ?thesis using nf builtin_stop_shrinks fg_shrinks_no_foreground by blast
  next
    case kill
    then show ?thesis using nf builtin_kill_shrinks fg_shrinks_no_foreground by blast
  next
    case none
    then show ?thesis using nf by simp
  qed
  then show "no_foreground s'" and "k \<noteq> 1 \<longrightarrow> s' = s" by simp_all
qed

lemma spawn_stage_same:
  "case spawn_stage r p c K cc pgid s of
     Inl s' \<Rightarrow> heap s' = heap s \<and> job_list s' = job_list s
   | Inr (np, s') \<Rightarrow> heap s' = heap s \<and> job_list s' = job_list s"
  by (simp add: spawn_stage_def spawn_failed_cleanup_def Let_def perror_def
      termstate_sample_def termstate_give_terminal_back_to_shell_def
      termstate_give_terminal_to_def)

lemma spawn_stages_same:
  "case spawn_stages rs p K cs cc pgid pids s of
     Inl s' \<Rightarrow> heap s' = heap s \<and> job_list s' = job_list s
   | Inr (ps, s') \<Rightarrow> heap s' = heap s \<and> job_list s' = job_list s"
proof (induction cs arbitrary: cc pgid pids s)
  case Nil
  then show ?case by simp
next
  case (Cons c cs)
  note st = spawn_stage_same [where r = "rs cc" and p = p and c = c and K = K and cc = cc and pgid = pgid and s = s]
  show ?case
  proof (cases "spawn_stage (rs cc) p c K cc pgid s")
    case (Inl s1)
    then show ?thesis using st by simp
  next
    case (Inr x)
    obtain np s1 where x: "x = (np, s1)" by (cases x)
    have same1: "heap s1 = heap s \<and> job_list s1 = job_list s" using st Inr x by simp
    note ih = Cons.IH [where cc = "Suc cc" and pgid = "if pgid = 0 then np else pgid"
        and pids = "pids @ [np]" and s = s1]
    show ?thesis
      using ih same1 Inr x
      by (cases "spawn_stages rs p K cs (Suc cc) (if pgid = 0 then np else pgid) (pids @ [np]) s1")
         (auto split: prod.splits)
  qed
qed

lemma register_job_result:
  assumes "register_job ev p pids s = Inr (a, t)"
  shows "a \<notin> set (job_list s)" and "job_list t = job_list s @ [a]"
    and "\<forall>b. b \<noteq> a \<longrightarrow> heap t b = heap s b"
    and "\<exists>j. heap t a = Some j \<and> status j = (if bg_job p then BACKGROUND else FOREGROUND)"
    and "sigchld_blocked t = sigchld_blocked s"
proof -
  obtain i where i: "find_free_jid (jid2job s) 1 = Some i"
    using assms by (cases "find_free_jid (jid2job s) 1") (simp_all add: register_job_def add_job_def)
  have a: "a = malloc_addr s"
    using assms i by (simp add: register_job_def add_job_def Let_def)
  show "a \<notin> set (job_list s)" unfolding a by (rule malloc_addr_fresh)
  have t: "job_list t = job_list s @ [a] \<and> (\<forall>b. b \<noteq> a \<longrightarrow> heap t b = heap s b) \<and>
      (\<exists>j. heap t a = Some j \<and> status j = (if bg_job p then BACKGROUND else FOREGROUND)) \<and>
      sigchld_blocked t = sigchld_blocked s"
    using assms i by (auto simp: register_job_def add_job_def Let_def)
  then show "job_list t = job_list s @ [a]" and "\<forall>b. b \<noteq> a \<longrightarrow> heap t b = heap s b"
    and "\<exists>j. heap t a = Some j \<and> status j = (if bg_job p then BACKGROUND else FOREGROUND)"
    and "sigchld_blocked t = sigchld_blocked s"
    by simp_all
qed

lemma register_job_others:
  assumes nf: "no_foreground s" and r: "register_job ev p pids s = Inr (a, t)"
  shows "\<forall>b \<in> set (job_list t). b \<noteq> a \<longrightarrow> \<not> is_fg t b"
proof (intro ballI impI)
  fix b assume b: "b \<in> set (job_list t)" "b \<noteq> a"
  note rr = register_job_result [OF r]
  have "b \<in> set (job_list s)" using b rr(2) by simp
  then have "\<not> is_fg s b" using nf by (simp add: no_foreground_def)
  moreover have "heap t b = heap s b" using rr(3) b(2) by simp
  ultimately show "\<not> is_fg t b" by (simp add: is_fg_def)
qed

lemma others_at_most_one:
  "\<forall>b \<in> set (job_list t). b \<noteq> a \<longrightarrow> \<not> is_fg t b \<Longrightarrow> at_most_one_foreground t"
  unfolding at_most_one_foreground_def by metis

lemma set_status_foreground_others:
  "no_foreground s \<Longrightarrow>
   \<forall>b \<in> set (job_list (set_status a FOREGROUND s)). b \<noteq> a \<longrightarrow> \<not> is_fg (set_status a FOREGROUND s) b"
  by (simp add: no_foreground_def set_status_other)

lemma drain_children_shrinks: "drain_children evs s = Inr s' \<Longrightarrow> fg_shrinks s s'"
proof (induction evs arbitrary: s)
  case Nil
  then show ?case by simp
next
  case (Cons ev evs)
  obtain p st where ev: "ev = (p, st)" by (cases ev)
  from Cons.prems obtain s1 where s1: "handle_child_status p st s = Inr s1"
    "drain_children evs s1 = Inr s'"
    unfolding ev drain_children.simps by (blast dest: sum_bind_Inr)
  show ?case
    using fg_shrinks_trans [OF handle_child_status_shrinks(1) [OF s1(1)] Cons.IH [OF s1(2)]] .
qed

lemma sigchld_handler_no_foreground:
  assumes nf: "no_foreground s" and r: "sigchld_handler evs s = Inr s'"
  shows "no_foreground s'"
proof (cases "sigchld_blocked s")
  case True
  then have "Inr s = (Inr s' :: crash + shell)" using r by (simp add: sigchld_handler_def)
  then have "s = s'" by (rule Inr_inject)
  then show ?thesis using nf by simp
next
  case False
  then have "(case drain_children evs (s\<lparr>sigchld_blocked := True\<rparr>) of
      Inl e \<Rightarrow> Inl e | Inr s1 \<Rightarrow> Inr (s1\<lparr>sigchld_blocked := False\<rparr>)) = Inr s'"
    using r by (simp add: sigchld_handler_def)
  then obtain s1 where s1: "drain_children evs (s\<lparr>sigchld_blocked := True\<rparr>) = Inr s1"
    and e: "Inr (s1\<lparr>sigchld_blocked := False\<rparr>) = (Inr s' :: crash + shell)"
    by (blast dest: sum_bind_Inr)
  from e have s': "s1\<lparr>sigchld_blocked := False\<rparr> = s'" by (rule Inr_inject)
  have "no_foreground (s\<lparr>sigchld_blocked := True\<rparr>)"
    using nf by (rule no_foreground_frame) simp_all
  then have "no_foreground s1"
    using drain_children_shrinks [OF s1] fg_shrinks_no_foreground by blast
  then have "no_foreground (s1\<lparr>sigchld_blocked := False\<rparr>)"
    by (rule no_foreground_frame) simp_all
  then show ?thesis unfolding s' .
qed

lemma spawn_pipeline_no_foreground:
  assumes nf: "no_foreground s1" and r: "spawn_pipeline ev p s1 = Inr (k, s')"
  shows "no_foreground s'"
proof -
  define K where "K = length (commands p)"
  define s2 where "s2 = s1\<lparr>live_arrays := live_arrays s1 + 2,
                            open_pipe_fds := open_pipe_fds s1 + 2 * (K - 1)\<rparr>"
  have nf2: "no_foreground s2" unfolding s2_def using nf by (rule no_foreground_frame) simp_all
  note same = spawn_stages_same [where rs = "stage_results ev" and p = p and K = K
      and cs = "commands p" and cc = 0 and pgid = 0 and pids = "[]" and s = s2]
  have body: "(case spawn_stages (stage_results ev) p K (commands p) 0 0 [] s2 of
           Inl s3 \<Rightarrow> Inr (1, s3)
         | Inr (pids, s3) \<Rightarrow>
             let s4 = s3\<lparr>open_pipe_fds := open_pipe_fds s3 - 2 * (K - 1),
                        live_arrays := live_arrays s3 - 1\<rparr>
             in case register_job ev p pids s4 of
                  Inl e \<Rightarrow> Inl e
                | Inr (a, s5) \<Rightarrow>
                    if bg_job p
                    then (case (heap s5 a, pids) of
                            (Some j, p0 # _) \<Rightarrow>
                              Inr (0, (printf (''['' @ show_int (jid j) @ ''] '' @
                                         show_int p0 @ newline) s5)
                                      \<lparr>sigchld_blocked := False\<rparr>)
                          | _ \<Rightarrow> Inl Out_of_bounds)
                    else (case wait_for_job a (waitpid_results ev) s5 of
                            Inl e \<Rightarrow> Inl e
                          | Inr s6 \<Rightarrow>
                              Inr (0, (termstate_give_terminal_back_to_shell s6)
                                     \<lparr>sigchld_blocked := False\<rparr>))) = Inr (k, s')"
    using r unfolding spawn_pipeline_def K_def s2_def by (simp only: Let_def)
  show ?thesis
  proof (cases "spawn_stages (stage_results ev) p K (commands p) 0 0 [] s2")
    case (Inl s3)
    then have "Inr (1, s3) = (Inr (k, s') :: crash + int \<times> shell)"
      using body by (simp only: sum.case)
    then have "(1, s3) = (k, s')" by (rule Inr_inject)
    then have "s' = s3" by simp
    moreover have "heap s3 = heap s2 \<and> job_list s3 = job_list s2" using same Inl by simp
    ultimately show ?thesis using nf2 by (auto intro: no_foreground_frame)
  next
    case (Inr x)
    obtain pids s3 where x: "x = (pids, s3)" by (cases x)
    have same3: "heap s3 = heap s2 \<and> job_list s3 = job_list s2" using same Inr x by simp
    define s4 where "s4 = s3\<lparr>open_pipe_fds := open_pipe_fds s3 - 2 * (K - 1),
                              live_arrays := live_arrays s3 - 1\<rparr>"
    have nf4: "no_foreground s4"
      unfolding s4_def using nf2 same3 by (auto intro: no_foreground_frame)
    have rest: "(case register_job ev p pids s4 of
          Inl e \<Rightarrow> Inl e
        | Inr (a, s5) \<Rightarrow>
            if bg_job p
            then (case (heap s5 a, pids) of
                    (Some j, p0 # _) \<Rightarrow>
                      Inr (0, (printf (''['' @ show_int (jid j) @ ''] '' @
                                 show_int p0 @ newline) s5)\<lparr>sigchld_blocked := False\<rparr>)
                  | _ \<Rightarrow> Inl Out_of_bounds)
            else (case wait_for_job a (waitpid_results ev) s5 of
                    Inl e \<Rightarrow> Inl e
                  | Inr s6 \<Rightarrow>
                      Inr (0, (termstate_give_terminal_back_to_shell s6)
                             \<lparr>sigchld_blocked := False\<rparr>))) = Inr (k, s')"
      using body unfolding Inr x s4_def by (simp only: sum.case prod.case Let_def)
    obtain a s5 where rj: "register_job ev p pids s4 = Inr (a, s5)"
    proof (cases "register_job ev p pids s4")
      case (Inl e)
      then show ?thesis using rest by simp
    next
      case (Inr y)
      then show ?thesis using that by (cases y) simp
    qed
    note rr = register_job_result [OF rj]
    note oth = register_job_others [OF nf4 rj]
    show ?thesis
    proof (cases "bg_job p")
      case True
      obtain j where j: "heap s5 a = Some j" "status j = BACKGROUND" using rr(4) True by auto
      have nf5: "no_foreground s5"
        unfolding no_foreground_def
      proof
        fix b assume "b \<in> set (job_list s5)"
        then show "\<not> is_fg s5 b" using oth j by (cases "b = a") (simp_all add: is_fg_def)
      qed
      obtain p0 ps where ps: "pids = p0 # ps"
        using rest rj True j by (cases pids) simp_all
      have "Inr (0, (printf (''['' @ show_int (jid j) @ ''] '' @ show_int p0 @ newline) s5)
              \<lparr>sigchld_blocked := False\<rparr>) = (Inr (k, s') :: crash + int \<times> shell)"
        using rest rj True j ps by simp
      then have "(0, (printf (''['' @ show_int (jid j) @ ''] '' @ show_int p0 @ newline) s5)
              \<lparr>sigchld_blocked := False\<rparr>) = (k, s')" by (rule Inr_inject)
      then have "s' = (printf (''['' @ show_int (jid j) @ ''] '' @ show_int p0 @ newline) s5)
              \<lparr>sigchld_blocked := False\<rparr>" by simp
      then show ?thesis using nf5 by (auto intro: no_foreground_frame)
    next
      case False
      have w: "(case wait_for_job a (waitpid_results ev) s5 of
                    Inl e \<Rightarrow> Inl e
                  | Inr s6 \<Rightarrow>
                      Inr (0, (termstate_give_terminal_back_to_shell s6)
                             \<lparr>sigchld_blocked := False\<rparr>)) = Inr (k, s')"
        using rest rj False by simp
      then obtain s6 where s6: "wait_for_job a (waitpid_results ev) s5 = Inr s6"
        and e: "Inr (0, (termstate_give_terminal_back_to_shell s6)\<lparr>sigchld_blocked := False\<rparr>) =
                (Inr (k, s') :: crash + int \<times> shell)"
        by (blast dest: sum_bind_Inr)
      from e have "(0, (termstate_give_terminal_back_to_shell s6)\<lparr>sigchld_blocked := False\<rparr>) =
          (k, s')" by (rule Inr_inject)
      then have s': "s' = (termstate_give_terminal_back_to_shell s6)\<lparr>sigchld_blocked := False\<rparr>"
        by simp
      have "no_foreground s6" using oth s6 by (rule wait_after_foreground)
      then show ?thesis unfolding s' by (rule no_foreground_frame) simp_all
    qed
  qed
qed

lemma iterate_over_pipeline_no_foreground:
  assumes nf: "no_foreground s" and r: "iterate_over_pipeline ev p s = Inr (k, s')"
  shows "no_foreground s'"
proof -
  define s0 where "s0 = s\<lparr>sigchld_blocked := True\<rparr>"
  have nf0: "no_foreground s0" unfolding s0_def using nf by (rule no_foreground_frame) simp_all
  obtain c0 cs where c: "commands p = c0 # cs"
    using r by (cases "commands p") (simp_all add: iterate_over_pipeline_def)
  obtain name rest where n: "argv c0 = name # rest"
    using r c by (cases "argv c0") (simp_all add: iterate_over_pipeline_def)
  have ne: "name \<noteq> ''exit''"
    using r c n by (auto simp: iterate_over_pipeline_def)
  have body: "(case check_for_builtin ev c0 s0 of
                  Inl e \<Rightarrow> Inl e
                | Inr (r, s1) \<Rightarrow>
                    if r = 1 then Inr (1, s1\<lparr>sigchld_blocked := False\<rparr>)
                    else spawn_pipeline ev p s1) = Inr (k, s')"
    using r c n ne by (simp add: iterate_over_pipeline_def s0_def)
  obtain k1 s1 where cb: "check_for_builtin ev c0 s0 = Inr (k1, s1)"
  proof (cases "check_for_builtin ev c0 s0")
    case (Inl e)
    then show ?thesis using body by simp
  next
    case (Inr x)
    then show ?thesis using that by (cases x) simp
  qed
  note b = check_for_builtin_no_foreground [OF nf0 cb]
  show ?thesis
  proof (cases "k1 = 1")
    case True
    then have "Inr (1, s1\<lparr>sigchld_blocked := False\<rparr>) = (Inr (k, s') :: crash + int \<times> shell)"
      using body cb by simp
    then have "(1, s1\<lparr>sigchld_blocked := False\<rparr>) = (k, s')" by (rule Inr_inject)
    then have "s' = s1\<lparr>sigchld_blocked := False\<rparr>" by simp
    then show ?thesis using b(1) by (auto intro: no_foreground_frame)
  next
    case False
    then have "spawn_pipeline ev p s1 = Inr (k, s')" using body cb by simp
    then show ?thesis using b(1) spawn_pipeline_no_foreground by blast
  qed
qed

lemma wait_loop_states_first: "s \<in> set (wait_loop_states a evs s)"
proof (cases evs)
  case Nil
  show ?thesis unfolding Nil by (simp only: wait_loop_states.simps list.set insertI1)
next
  case (Cons ev es)
  obtain p st where "ev = (p, st)" by (cases ev)
  then show ?thesis unfolding Cons by (simp only: wait_loop_states.simps list.set insertI1)
qed

lemma shell_bg_no_foreground: "no_foreground shell_bg"
  by (simp add: no_foreground_def is_fg_def shell_bg_def job_ls_wc_def)

lemma shell_bg_run:
  "\<exists>s'. iterate_over_pipeline env_exits pipe_sleep shell_bg = Inr (0, s')"
  by (simp add: iterate_over_pipeline_def spawn_pipeline_def check_for_builtin_def
      spawn_stage_def register_job_def add_job_def find_free_jid.simps malloc_addr_def
      wait_for_job_def handle_child_status_def job_has_pid_def on_exited_def
      termstate_sample_def delete_job_def list_remove_def MAXJOBS_def Let_def
      shell_bg_def env_exits_def fixture_defs)

lemma shell_bg_handler:
  "\<exists>s''. sigchld_handler [(200, Exited 0)] shell_bg = Inr s''"
  by (simp add: sigchld_handler_def handle_child_status_def job_has_pid_def shell_bg_def
      fixture_defs)

lemma shell_bg_register:
  "\<exists>b t. register_job env_exits pipe_sleep [300] shell_bg = Inr (b, t)"
  by (simp add: register_job_def add_job_def find_free_jid.simps malloc_addr_def MAXJOBS_def
      Let_def shell_bg_def env_exits_def fixture_defs)

text \<open>
  The list of states is the run of the wait loop: it starts with the state at entry and,
  when the loop returns, ends with the state it returns.
\<close>

lemma wait_loop_states_nonempty: "wait_loop_states a evs s \<noteq> []"
proof (cases evs)
  case Nil
  show ?thesis unfolding Nil by (simp only: wait_loop_states.simps) simp
next
  case (Cons ev es)
  obtain p st where "ev = (p, st)" by (cases ev)
  then show ?thesis unfolding Cons by (simp only: wait_loop_states.simps) simp
qed

lemma wait_loop_last_state:
  "wait_loop a evs s = Inr s' \<Longrightarrow> last (wait_loop_states a evs s) = s'"
proof (induction evs arbitrary: s)
  case Nil
  then have "Inr s = (Inr s' :: crash + shell)"
    by (cases "heap s a") (simp_all split: if_splits)
  then have "s = s'" by (rule Inr_inject)
  then show ?case by (simp only: wait_loop_states.simps last_ConsL)
next
  case (Cons ev evs)
  obtain p st where ev: "ev = (p, st)" by (cases ev)
  obtain j where j: "heap s a = Some j"
    using Cons.prems ev by (cases "heap s a") simp_all
  show ?case
  proof (cases "status j = FOREGROUND \<and> num_processes_alive j > 0")
    case False
    have wl: "wait_loop a (ev # evs) s = Inr s" "wait_loop_states a (ev # evs) s = [s]"
      unfolding ev by (simp_all only: wait_loop.simps wait_loop_states.simps j option.case
          if_not_P [OF False])
    then have "Inr s = (Inr s' :: crash + shell)" using Cons.prems by simp
    then have "s = s'" by (rule Inr_inject)
    moreover note wl(2)
    ultimately show ?thesis by (simp only: last_ConsL)
  next
    case True
    have "wait_loop a (ev # evs) s = (case handle_child_status p st s of Inl e \<Rightarrow> Inl e
        | Inr s1 \<Rightarrow> wait_loop a evs s1)"
      unfolding ev by (simp only: wait_loop.simps j option.case if_P [OF True])
    then have "(case handle_child_status p st s of Inl e \<Rightarrow> Inl e
        | Inr s1 \<Rightarrow> wait_loop a evs s1) = Inr s'"
      using Cons.prems by simp
    then obtain s1 where s1: "handle_child_status p st s = Inr s1" "wait_loop a evs s1 = Inr s'"
      by (blast dest: sum_bind_Inr)
    have eq: "wait_loop_states a (ev # evs) s = s # wait_loop_states a evs s1"
      unfolding ev
      by (simp only: wait_loop_states.simps j option.case if_P [OF True] s1(1) sum.case)
    have "last (s # wait_loop_states a evs s1) = last (wait_loop_states a evs s1)"
      by (rule last_ConsR) (rule wait_loop_states_nonempty)
    then show ?thesis unfolding eq using Cons.IH [OF s1(2)] by (rule trans)
  qed
qed

subsection \<open>C5: what a stop event does to the job\<close>

text \<open>
  Claim C5.  A stop event for a pid whose job the lookup finds: when the stop signal is
  \<open>SIGTTOU\<close> or \<open>SIGTTIN\<close> the job's status becomes \<open>NEEDSTERMINAL\<close> whatever it
  was; for any other stop signal the status becomes \<open>STOPPED\<close> in all cases, and if the
  status was \<open>FOREGROUND\<close> the current terminal attributes are stored in the job's
  \<open>saved_tty_state\<close>, \<open>state_saved_previously\<close> is set and \<open>z_update_jid\<close> (the
  notice the main loop prints later) is set to the job's id; if it was not
  \<open>FOREGROUND\<close> none of the three is touched.
\<close>

theorem stop_event_transition:
  assumes "sigchld_blocked s"
    and "find_job_by_pid (heap s) (job_list s) p = Inr (Some a)"
    and "heap s a = Some j"
  shows "\<exists>s' j'. handle_child_status p (Stopped sig) s = Inr s' \<and> heap s' a = Some j' \<and>
     (if sig = SIGTTOU \<or> sig = SIGTTIN then status j' = NEEDSTERMINAL
      else status j' = STOPPED \<and>
        (if status j = FOREGROUND
         then saved_tty_state j' = tty_state s \<and> state_saved_previously j' \<and>
              z_update_jid s' = jid j
         else saved_tty_state j' = saved_tty_state j \<and>
              state_saved_previously j' = state_saved_previously j \<and>
              z_update_jid s' = z_update_jid s))"
  using assms by (simp add: handle_child_status_def on_stopped_def termstate_save_def)

theorem stop_event_transition_witness:
  "sigchld_blocked shell_one \<and>
   find_job_by_pid (heap shell_one) (job_list shell_one) 100 = Inr (Some 1) \<and>
   heap shell_one 1 = Some job_sleep \<and>
   (\<exists>s' j'. handle_child_status 100 (Stopped 20) shell_one = Inr s' \<and> heap s' 1 = Some j' \<and>
      status j' = STOPPED \<and> saved_tty_state j' = 7 \<and> state_saved_previously j' \<and>
      z_update_jid s' = 1) \<and>
   (\<exists>s' j'. handle_child_status 100 (Stopped 21) shell_one = Inr s' \<and> heap s' 1 = Some j' \<and>
      status j' = NEEDSTERMINAL)"
  using stop_event_transition [of shell_one 100 1 job_sleep 20]
        stop_event_transition [of shell_one 100 1 job_sleep 21]
  by (simp add: shell_one_def shell_init_def job_sleep_def pipe_sleep_def cmd_sleep_def
      job_has_pid_def SIGTTOU_def SIGTTIN_def)

subsection \<open>C10: the pid of an event must be a registered member\<close>

text \<open>
  Claim C10.  \<open>handle_child_status\<close> dereferences the job its lookup returns without a
  null test.  On a well-formed registry the call returns normally whenever the pid is
  among the pids of some registered job, and for a pid of no registered job every exit,
  signal or stop event ends in a null dereference: the precondition "only member pids
  of registered jobs are reaped" is exactly what keeps the not-found case away.
\<close>

theorem pid_lookup_precondition:
  assumes "sigchld_blocked s" and "registry_ok s"
  shows "(pid_registered p s \<longrightarrow> (\<exists>s'. handle_child_status p st s = Inr s')) \<and>
         (\<not> pid_registered p s \<and> st \<noteq> Continued \<longrightarrow> handle_child_status p st s = Inl Segfault)"
proof -
  have live: "\<forall>a \<in> set (job_list s). heap s a \<noteq> None"
    using assms(2) by (auto simp: registry_ok_def split: option.splits)
  then obtain r where r: "find_job_by_pid (heap s) (job_list s) p = Inr r"
    using find_job_by_pid_total by blast
  show ?thesis
  proof (cases r)
    case None
    then have "\<not> pid_registered p s"
      using find_job_by_pid_None [of "heap s" "job_list s" p] r
      by (fastforce simp: pid_registered_def)
    then show ?thesis
      using assms(1) r None by (cases st) (simp_all add: handle_child_status_def)
  next
    case (Some a)
    then obtain j where "a \<in> set (job_list s)" "heap s a = Some j" "job_has_pid j p"
      using find_job_by_pid_Some [of "heap s" "job_list s" p a] r by auto
    then have "pid_registered p s"
      unfolding pid_registered_def by (intro bexI [of _ a]) simp_all
    moreover have "\<exists>s'. handle_child_status p st s = Inr s'"
      using assms(1) r Some \<open>heap s a = Some j\<close>
      by (cases st) (simp_all add: handle_child_status_def)
    ultimately show ?thesis by simp
  qed
qed

theorem pid_lookup_precondition_witness:
  "sigchld_blocked shell_one \<and> registry_ok shell_one \<and>
   pid_registered 100 shell_one \<and> (\<exists>s'. handle_child_status 100 (Exited 0) shell_one = Inr s') \<and>
   \<not> pid_registered 999 shell_one \<and> handle_child_status 999 (Exited 0) shell_one = Inl Segfault"
  using pid_lookup_precondition [of shell_one 100 "Exited 0"]
        pid_lookup_precondition [of shell_one 999 "Exited 0"]
  by (simp add: shell_one_def shell_init_def job_sleep_def pipe_sleep_def cmd_sleep_def
      job_has_pid_def registry_ok_def pid_registered_def MAXJOBS_def)

subsection \<open>C1: alive count and final status\<close>

text \<open>
  Claim C1.  Start from a registry in which every job's alive count is the number of
  its member pids still live (and is zero exactly when the job is \<open>DONE\<close> or
  \<open>TERMINATED\<close>), and let the status monitor process any list of events about live
  children, each child having no event after its exit or death.  Then the monitor
  returns, and for every registered job the alive count is again the number of its
  pids still live, is not negative, and is zero if and only if the status is \<open>DONE\<close> or
  \<open>TERMINATED\<close>.  A single normal exit of a live member decrements the count and sets
  \<open>DONE\<close> when it reaches zero; a single signal death records the signal, decrements
  the count and sets \<open>TERMINATED\<close> when it reaches zero.
\<close>

theorem alive_count_invariant:
  assumes "monitor_inv L s" and "events_for_live L evs"
  shows "(\<exists>s'. drain_children evs s = Inr s' \<and> job_list s' = job_list s \<and>
            (\<forall>a \<in> set (job_list s'). \<exists>j'. heap s' a = Some j' \<and>
               0 \<le> num_processes_alive j' \<and>
               num_processes_alive j' = int (card (set (child_pid_array j') \<inter> live_after L evs)) \<and>
               (num_processes_alive j' = 0 \<longleftrightarrow> status j' = DONE \<or> status j' = TERMINATED))) \<and>
         (\<forall>p \<in> L. \<exists>a j. find_job_by_pid (heap s) (job_list s) p = Inr (Some a) \<and>
            heap s a = Some j \<and>
            (\<forall>c. \<exists>s1 j1. handle_child_status p (Exited c) s = Inr s1 \<and> heap s1 a = Some j1 \<and>
               num_processes_alive j1 = num_processes_alive j - 1 \<and>
               status j1 = (if num_processes_alive j1 = 0 then DONE else status j)) \<and>
            (\<forall>sig. \<exists>s1 j1. handle_child_status p (Signaled sig) s = Inr s1 \<and> heap s1 a = Some j1 \<and>
               termination_code j1 = (if sig \<noteq> 0 then sig else termination_code j) \<and>
               num_processes_alive j1 = num_processes_alive j - 1 \<and>
               status j1 = (if num_processes_alive j1 = 0 then TERMINATED else status j)))"
proof (intro conjI ballI)
  obtain s' where s': "drain_children evs s = Inr s'" "job_list s' = job_list s"
    "monitor_inv (live_after L evs) s'"
    using monitor_run [OF assms] by blast
  have "\<exists>j'. heap s' a = Some j' \<and> 0 \<le> num_processes_alive j' \<and>
          num_processes_alive j' = int (card (set (child_pid_array j') \<inter> live_after L evs)) \<and>
          (num_processes_alive j' = 0 \<longleftrightarrow> status j' = DONE \<or> status j' = TERMINATED)"
    if "a \<in> set (job_list s')" for a
    using s'(3) that unfolding monitor_inv_def counts_ok_def
    by (cases "heap s' a") (auto split: option.splits)
  then show "\<exists>s'. drain_children evs s = Inr s' \<and> job_list s' = job_list s \<and>
            (\<forall>a \<in> set (job_list s'). \<exists>j'. heap s' a = Some j' \<and>
               0 \<le> num_processes_alive j' \<and>
               num_processes_alive j' = int (card (set (child_pid_array j') \<inter> live_after L evs)) \<and>
               (num_processes_alive j' = 0 \<longleftrightarrow> status j' = DONE \<or> status j' = TERMINATED))"
    using s'(1,2) by blast
next
  fix p assume p: "p \<in> L"
  have ok: "registry_ok s" and reg: "live_registered L s" and cnt: "counts_ok L s"
    and blk: "sigchld_blocked s"
    using assms(1) by (simp_all add: monitor_inv_def)
  obtain a j where a: "find_job_by_pid (heap s) (job_list s) p = Inr (Some a)"
    "a \<in> set (job_list s)" "heap s a = Some j" "p \<in> set (child_pid_array j)"
    using find_job_by_pid_owner [OF ok reg p] by blast
  have "num_processes_alive j = int (card (set (child_pid_array j) \<inter> L))"
    using cnt a(2,3) unfolding counts_ok_def by (auto split: option.splits)
  then have pos: "0 < num_processes_alive j"
    using card_live_remove(2) [OF a(4) p] by simp
  have ex: "\<exists>s1 j1. handle_child_status p (Exited c) s = Inr s1 \<and> heap s1 a = Some j1 \<and>
               num_processes_alive j1 = num_processes_alive j - 1 \<and>
               status j1 = (if num_processes_alive j1 = 0 then DONE else status j)" for c
    using blk a(1,3) pos by (simp add: handle_child_status_def on_exited_def Let_def)
  have sg: "\<exists>s1 j1. handle_child_status p (Signaled sig) s = Inr s1 \<and> heap s1 a = Some j1 \<and>
               termination_code j1 = (if sig \<noteq> 0 then sig else termination_code j) \<and>
               num_processes_alive j1 = num_processes_alive j - 1 \<and>
               status j1 = (if num_processes_alive j1 = 0 then TERMINATED else status j)" for sig
    using blk a(1,3) pos by (simp add: handle_child_status_def on_signaled_def Let_def)
  show "\<exists>a j. find_job_by_pid (heap s) (job_list s) p = Inr (Some a) \<and>
            heap s a = Some j \<and>
            (\<forall>c. \<exists>s1 j1. handle_child_status p (Exited c) s = Inr s1 \<and> heap s1 a = Some j1 \<and>
               num_processes_alive j1 = num_processes_alive j - 1 \<and>
               status j1 = (if num_processes_alive j1 = 0 then DONE else status j)) \<and>
            (\<forall>sig. \<exists>s1 j1. handle_child_status p (Signaled sig) s = Inr s1 \<and> heap s1 a = Some j1 \<and>
               termination_code j1 = (if sig \<noteq> 0 then sig else termination_code j) \<and>
               num_processes_alive j1 = num_processes_alive j - 1 \<and>
               status j1 = (if num_processes_alive j1 = 0 then TERMINATED else status j))"
    using a(1,3) ex sg by blast
qed

theorem alive_count_invariant_witness:
  "monitor_inv {100, 200, 201} shell_two \<and>
   events_for_live {100, 200, 201} [(200, Exited 0), (100, Stopped 20), (201, Signaled 9)] \<and>
   (\<exists>s'. drain_children [(200, Exited 0), (100, Stopped 20), (201, Signaled 9)] shell_two = Inr s' \<and>
      job_list s' = [1, 2] \<and>
      (\<exists>j'. heap s' 2 = Some j' \<and> 0 \<le> num_processes_alive j' \<and>
         num_processes_alive j' =
           int (card (set (child_pid_array j') \<inter>
             live_after {100, 200, 201} [(200, Exited 0), (100, Stopped 20), (201, Signaled 9)])) \<and>
         (num_processes_alive j' = 0 \<longleftrightarrow> status j' = DONE \<or> status j' = TERMINATED))) \<and>
   (\<exists>s1 j1. handle_child_status 200 (Exited 0) shell_two = Inr s1 \<and> heap s1 2 = Some j1 \<and>
      num_processes_alive j1 = 1 \<and> status j1 = BACKGROUND) \<and>
   (\<exists>s1 j1. handle_child_status 100 (Signaled 9) shell_two = Inr s1 \<and> heap s1 1 = Some j1 \<and>
      termination_code j1 = 9 \<and> num_processes_alive j1 = 0 \<and> status j1 = TERMINATED)"
proof -
  let ?evs = "[(200, Exited 0), (100, Stopped 20), (201, Signaled 9)]"
  have h1: "monitor_inv {100, 200, 201} shell_two" by (rule shell_two_inv)
  have h2: "events_for_live {100, 200, 201} ?evs" by (simp add: is_terminal_def)
  have l: "job_list shell_two = [1, 2]" by (simp add: shell_two_def)
  note inst = alive_count_invariant [OF h1 h2]
  from inst
  obtain s' where s': "drain_children ?evs shell_two = Inr s'" "job_list s' = job_list shell_two"
    "\<forall>a \<in> set (job_list s'). \<exists>j'. heap s' a = Some j' \<and> 0 \<le> num_processes_alive j' \<and>
       num_processes_alive j' = int (card (set (child_pid_array j') \<inter> live_after {100, 200, 201} ?evs)) \<and>
       (num_processes_alive j' = 0 \<longleftrightarrow> status j' = DONE \<or> status j' = TERMINATED)"
    by blast
  have m: "2 \<in> set (job_list s')" using s'(2) l by simp
  have run: "\<exists>s'. drain_children ?evs shell_two = Inr s' \<and> job_list s' = [1, 2] \<and>
      (\<exists>j'. heap s' 2 = Some j' \<and> 0 \<le> num_processes_alive j' \<and>
         num_processes_alive j' = int (card (set (child_pid_array j') \<inter> live_after {100, 200, 201} ?evs)) \<and>
         (num_processes_alive j' = 0 \<longleftrightarrow> status j' = DONE \<or> status j' = TERMINATED))"
    using s' l m by auto
  have f200: "find_job_by_pid (heap shell_two) (job_list shell_two) 200 = Inr (Some 2)"
    and f100: "find_job_by_pid (heap shell_two) (job_list shell_two) 100 = Inr (Some 1)"
    and j2: "heap shell_two 2 = Some job_ls_wc" and j1: "heap shell_two 1 = Some job_sleep"
    by (simp_all add: job_has_pid_def fixture_defs)
  have v2: "num_processes_alive job_ls_wc = 2" "status job_ls_wc = BACKGROUND"
    and v1: "num_processes_alive job_sleep = 1" "termination_code job_sleep = - 1"
    by (simp_all add: fixture_defs)
  have "(200::int) \<in> {100, 200, 201}" by simp
  with inst obtain a j where e: "find_job_by_pid (heap shell_two) (job_list shell_two) 200 = Inr (Some a)"
    "heap shell_two a = Some j"
    "\<forall>c. \<exists>s1 j1. handle_child_status 200 (Exited c) shell_two = Inr s1 \<and> heap s1 a = Some j1 \<and>
       num_processes_alive j1 = num_processes_alive j - 1 \<and>
       status j1 = (if num_processes_alive j1 = 0 then DONE else status j)"
    by blast
  have "a = 2" using e(1) f200 by simp
  then have "j = job_ls_wc" using e(2) j2 by simp
  from e(3) obtain t1 i1 where i: "handle_child_status 200 (Exited 0) shell_two = Inr t1"
    "heap t1 a = Some i1" "num_processes_alive i1 = num_processes_alive j - 1"
    "status i1 = (if num_processes_alive i1 = 0 then DONE else status j)"
    by blast
  have "num_processes_alive i1 = 1" using i(3) \<open>j = job_ls_wc\<close> v2 by simp
  then have ex: "\<exists>s1 j1. handle_child_status 200 (Exited 0) shell_two = Inr s1 \<and>
      heap s1 2 = Some j1 \<and> num_processes_alive j1 = 1 \<and> status j1 = BACKGROUND"
    using i \<open>a = 2\<close> \<open>j = job_ls_wc\<close> v2 by auto
  have "(100::int) \<in> {100, 200, 201}" by simp
  with inst obtain b jb where g: "find_job_by_pid (heap shell_two) (job_list shell_two) 100 = Inr (Some b)"
    "heap shell_two b = Some jb"
    "\<forall>sig. \<exists>s1 j1. handle_child_status 100 (Signaled sig) shell_two = Inr s1 \<and> heap s1 b = Some j1 \<and>
       termination_code j1 = (if sig \<noteq> 0 then sig else termination_code jb) \<and>
       num_processes_alive j1 = num_processes_alive jb - 1 \<and>
       status j1 = (if num_processes_alive j1 = 0 then TERMINATED else status jb)"
    by blast
  have "b = 1" using g(1) f100 by simp
  then have "jb = job_sleep" using g(2) j1 by simp
  from g(3) obtain s1 k1 where k: "handle_child_status 100 (Signaled 9) shell_two = Inr s1"
    "heap s1 b = Some k1" "termination_code k1 = (if (9::int) \<noteq> 0 then 9 else termination_code jb)"
    "num_processes_alive k1 = num_processes_alive jb - 1"
    "status k1 = (if num_processes_alive k1 = 0 then TERMINATED else status jb)"
    by blast
  have "num_processes_alive k1 = 0" using k(4) \<open>jb = job_sleep\<close> v1 by simp
  then have sg: "\<exists>s1 j1. handle_child_status 100 (Signaled 9) shell_two = Inr s1 \<and>
      heap s1 1 = Some j1 \<and> termination_code j1 = 9 \<and> num_processes_alive j1 = 0 \<and>
      status j1 = TERMINATED"
    using k \<open>b = 1\<close> by auto
  show ?thesis using h1 h2 run ex sg by blast
qed

subsection \<open>C6: removal frees the identifier; registration takes the lowest free one\<close>

text \<open>
  Claim C6.  For a job registered in a well-formed registry, unlinking it and calling
  \<open>delete_job\<close> succeeds, after which both lookups by its id (the array lookup
  \<open>get_job_from_jid\<close> and the list scan \<open>job_with_jid\<close>) find nothing, and the next
  \<open>add_job\<close> succeeds with an id that is at most the freed one, and is the freed one
  when every smaller id is in use.  In any state \<open>add_job\<close> either registers the job
  under the lowest id from 1 whose slot is null, or aborts the shell, and it aborts
  only when every slot from 1 to \<open>MAXJOBS - 1\<close> is in use.
\<close>

theorem registry_remove_then_register:
  assumes "registry_ok s" and "a \<in> set (job_list s)" and "heap s a = Some j"
  shows "(\<exists>s'. delete_job a (list_remove a s) = Inr s' \<and>
            get_job_from_jid (jid j) s' = None \<and>
            job_with_jid (jid j) s' = Inr None \<and>
            (\<exists>a' s'' j'. add_job p junk s' = Inr (a', s'') \<and> heap s'' a' = Some j' \<and>
               0 < jid j' \<and> jid j' \<le> jid j \<and>
               ((\<forall>k. 0 < k \<and> k < jid j \<longrightarrow> jid2job s k \<noteq> None) \<longrightarrow> jid j' = jid j))) \<and>
         (case add_job p junk t of
            Inr (a', t') \<Rightarrow>
              \<exists>j'. heap t' a' = Some j' \<and> get_job_from_jid (jid j') t' = Some a' \<and>
                   0 < jid j' \<and> jid j' < MAXJOBS \<and> jid2job t (jid j') = None \<and>
                   (\<forall>k. 0 < k \<and> k < jid j' \<longrightarrow> jid2job t k \<noteq> None)
          | Inl e \<Rightarrow> e = Aborted \<and> (\<forall>k. 0 < k \<and> k < MAXJOBS \<longrightarrow> jid2job t k \<noteq> None))"
proof (rule conjI)
  let ?s = "s\<lparr>heap := (heap s)(a := None), job_list := remove1 a (job_list s),
              jid2job := (jid2job s)(jid j := None), live_arrays := live_arrays s - 1\<rparr>"
  note rm = remove_job [OF assms]
  note jp = registry_ok_job [OF assms]
  have g: "get_job_from_jid (jid j) ?s = None" by (simp add: get_job_from_jid_def)
  have dist: "distinct (job_list s)" using assms(1) by (simp add: registry_ok_def)
  have "\<exists>jb. heap ?s b = Some jb \<and> jid jb \<noteq> jid j" if "b \<in> set (job_list ?s)" for b
  proof -
    have b: "b \<in> set (job_list s)" "b \<noteq> a" using that dist by auto
    obtain jb where jb: "heap s b = Some jb"
      using assms(1) b(1) unfolding registry_ok_def by (cases "heap s b") auto
    have "jid jb \<noteq> jid j"
      using registry_ok_jid_inj [OF assms(1) b(1) assms(2) jb assms(3)] b(2) by auto
    then show ?thesis using jb b(2) by simp
  qed
  then have w: "job_with_jid (jid j) ?s = Inr None"
    unfolding job_with_jid_def by (intro job_with_jid_scan_absent) blast
  have free: "jid2job ?s (jid j) = None" by simp
  have "find_free_jid (jid2job ?s) 1 \<noteq> None"
  proof
    assume "find_free_jid (jid2job ?s) 1 = None"
    then have "\<forall>m. 1 \<le> m \<and> m < MAXJOBS \<longrightarrow> jid2job ?s m \<noteq> None"
      by (rule find_free_jid_None)
    moreover have "1 \<le> jid j \<and> jid j < MAXJOBS" using jp(1,2) by simp
    ultimately have "jid2job ?s (jid j) \<noteq> None" by blast
    then show False using free by simp
  qed
  then obtain a' s'' where ad: "add_job p junk ?s = Inr (a', s'')"
    by (auto simp: add_job_def Let_def)
  then obtain j' where j': "heap s'' a' = Some j'" "0 < jid j'" "jid2job ?s (jid j') = None"
    "\<forall>k. 0 < k \<and> k < jid j' \<longrightarrow> jid2job ?s k \<noteq> None"
    using add_job_result [where p = p and junk = junk and t = "?s"] by auto
  have le: "jid j' \<le> jid j"
  proof (rule ccontr)
    assume "\<not> jid j' \<le> jid j"
    then have "jid2job ?s (jid j) \<noteq> None" using j'(4) jp(1) by auto
    then show False using free by simp
  qed
  have eq: "jid j' = jid j" if all: "\<forall>k. 0 < k \<and> k < jid j \<longrightarrow> jid2job s k \<noteq> None"
  proof (rule ccontr)
    assume "jid j' \<noteq> jid j"
    then have lt: "jid j' < jid j" using le by simp
    then have "jid2job s (jid j') \<noteq> None" using all j'(2) by blast
    then have "jid2job ?s (jid j') \<noteq> None" using lt by simp
    then show False using j'(3) by simp
  qed
  show "\<exists>s'. delete_job a (list_remove a s) = Inr s' \<and>
            get_job_from_jid (jid j) s' = None \<and>
            job_with_jid (jid j) s' = Inr None \<and>
            (\<exists>a' s'' j'. add_job p junk s' = Inr (a', s'') \<and> heap s'' a' = Some j' \<and>
               0 < jid j' \<and> jid j' \<le> jid j \<and>
               ((\<forall>k. 0 < k \<and> k < jid j \<longrightarrow> jid2job s k \<noteq> None) \<longrightarrow> jid j' = jid j))"
    using rm(1) g w ad j'(1,2) le eq by blast
next
  show "case add_job p junk t of
            Inr (a', t') \<Rightarrow>
              \<exists>j'. heap t' a' = Some j' \<and> get_job_from_jid (jid j') t' = Some a' \<and>
                   0 < jid j' \<and> jid j' < MAXJOBS \<and> jid2job t (jid j') = None \<and>
                   (\<forall>k. 0 < k \<and> k < jid j' \<longrightarrow> jid2job t k \<noteq> None)
          | Inl e \<Rightarrow> e = Aborted \<and> (\<forall>k. 0 < k \<and> k < MAXJOBS \<longrightarrow> jid2job t k \<noteq> None)"
    using add_job_result [where p = p and junk = junk and t = t] by (auto split: sum.splits)
qed

theorem registry_remove_then_register_witness:
  "registry_ok shell_two \<and> 1 \<in> set (job_list shell_two) \<and> heap shell_two 1 = Some job_sleep \<and>
   (\<exists>s'. delete_job 1 (list_remove 1 shell_two) = Inr s' \<and>
      get_job_from_jid 1 s' = None \<and> job_with_jid 1 s' = Inr None \<and>
      (\<exists>a' s'' j'. add_job pipe_sleep job_ls_wc s' = Inr (a', s'') \<and> heap s'' a' = Some j' \<and>
         jid j' = 1)) \<and>
   add_job pipe_sleep job_ls_wc shell_full = Inl Aborted"
proof -
  have h1: "registry_ok shell_two" by (rule shell_two_ok)
  have h2: "1 \<in> set (job_list shell_two)" by (simp add: shell_two_def)
  have h3: "heap shell_two 1 = Some job_sleep" by (simp add: shell_two_def)
  have j1: "jid job_sleep = 1" by (simp add: job_sleep_def)
  note t = registry_remove_then_register [OF h1 h2 h3, of pipe_sleep job_ls_wc shell_full]
  have used: "jid2job shell_full k \<noteq> None" for k by (simp add: shell_full_def)
  have full: "add_job pipe_sleep job_ls_wc shell_full = Inl Aborted"
  proof (cases "add_job pipe_sleep job_ls_wc shell_full")
    case (Inl e)
    then show ?thesis using t by simp
  next
    case (Inr r)
    then show ?thesis using t used by (cases r) auto
  qed
  have low: "\<forall>k. 0 < k \<and> k < jid job_sleep \<longrightarrow> jid2job shell_two k \<noteq> None"
    unfolding j1 by auto
  from t obtain s' a' s'' j' where r: "delete_job 1 (list_remove 1 shell_two) = Inr s'"
    "get_job_from_jid (jid job_sleep) s' = None" "job_with_jid (jid job_sleep) s' = Inr None"
    "add_job pipe_sleep job_ls_wc s' = Inr (a', s'')" "heap s'' a' = Some j'"
    "(\<forall>k. 0 < k \<and> k < jid job_sleep \<longrightarrow> jid2job shell_two k \<noteq> None) \<longrightarrow> jid j' = jid job_sleep"
    by blast
  have "jid j' = 1" using r(6) low j1 by simp
  then show ?thesis using h1 h2 h3 full r(1-5) unfolding j1 by blast
qed

subsection \<open>C2: user errors of the job-control commands\<close>

text \<open>
  For an id that names no job, \<open>fg\<close> prints a message that names the argument and
  changes nothing else.
\<close>

lemma fg_unknown_job_reports:
  "check_for_builtin env_quiet (cmd_of [''fg'', ''7'']) shell_one =
     Inr (1, shell_one\<lparr>out := ''fg 7: No such job'' @ newline\<rparr>)"
  by (simp add: check_for_builtin_def ran_builtin_def builtin_fg_def arg_def job_with_jid_def
      atoi_defs Let_def printf_def fixture_defs)

text \<open>
  Claim C2.  A job-control command given an id that names no job is to print a message
  naming the argument, do nothing else, and let the shell go on.  \<open>bg\<close> does not: with
  job 1 as the only job, \<open>bg 7\<close> reads through the null job pointer before the test
  that would print the message, and the shell dies of the fault.
\<close>

theorem bg_unknown_job_faults:
  "check_for_builtin env_quiet (cmd_of [''bg'', ''7'']) shell_one = Inl Segfault"
  by (simp add: check_for_builtin_def ran_builtin_def builtin_bg_def arg_def job_with_jid_def
      atoi_defs Let_def fixture_defs)

subsection \<open>C3: a failure while a stage is being set up\<close>

text \<open>
  Claim C3.  When process creation fails at a stage, the pipes and arrays made so far
  are to be released and the terminal given back to the shell.  The returns taken when
  a spawn attribute or a file action cannot be set up do neither: for the foreground
  pipeline \<open>ls -l | wc\<close> whose second stage fails in \<open>posix_spawn_file_actions_adddup2\<close>
  after the first stage has been spawned as pid 300, the function returns 1 with both
  pipe descriptors open, both arrays allocated, the terminal still owned by group 300
  and \<open>SIGCHLD\<close> blocked; only the missing registration is as claimed.
\<close>

theorem setup_failure_leaks:
  "iterate_over_pipeline env_dup2_fails pipe_ls_wc_fg shell_init =
     Inr (1, shell_init\<lparr>sigchld_blocked := True, tty_owner := 300,
               perrors := [''posix_spawn_file_actions_adddup2''],
               open_pipe_fds := 2, live_arrays := 2\<rparr>)"
  by (simp add: iterate_over_pipeline_def spawn_pipeline_def check_for_builtin_def spawn_stage_def perror_def
      Let_def fixture_defs)

subsection \<open>C9: \<open>SIGCHLD\<close> on the way back to the read loop\<close>

text \<open>
  Claim C9.  Delivery of \<open>SIGCHLD\<close> is to be resumed on every return to the read loop.
  The returns taken when a spawn attribute or a file action cannot be set up leave it
  blocked: for the pipeline \<open>sleep 100\<close> whose \<open>posix_spawnattr_setsigmask\<close> fails the
  function returns 1 with \<open>SIGCHLD\<close> blocked, and the assertion at the head of the read
  loop then fails.
\<close>

theorem setup_failure_keeps_sigchld_blocked:
  "iterate_over_pipeline env_sigmask_fails pipe_sleep shell_init =
     Inr (1, shell_init\<lparr>sigchld_blocked := True, perrors := [''spawn_attr_status'']\<rparr>
              \<lparr>live_arrays := 2\<rparr>) \<and>
   prompt_checks (shell_init\<lparr>sigchld_blocked := True, perrors := [''spawn_attr_status'']\<rparr>
              \<lparr>live_arrays := 2\<rparr>) = Inl Assert_failed"
  by (simp add: iterate_over_pipeline_def spawn_pipeline_def check_for_builtin_def spawn_stage_def perror_def
      prompt_checks_def Let_def fixture_defs)

subsection \<open>C7: \<open>kill\<close> with an explicit signal number\<close>

text \<open>
  What \<open>kill -<signum> <jid>\<close> does when the id names a registered job, for the number
  \<open>atoi\<close> reads after the first character of the second word: for 1, 2, 3, 6, 9, 15,
  17, 19 and 23 exactly one signal goes to the job's process group (its first pid),
  \<open>SIGSTOP\<close> for each of 17, 19 and 23 and the signal of that number otherwise; for any
  other number no signal is sent and the usage line is printed.  No job is changed
  either way.
\<close>

lemma kill_registered_job:
  assumes "3 \<le> length (argv c)" and "argv c ! 1 = dash # digits"
    and "job_with_jid (atoi (argv c ! 2)) s = Inr (Some a)"
    and "heap s a = Some j" and "child_pid_array j = pg # others"
  shows "(atoi digits \<in> {1, 2, 3, 6, 9, 15, 17, 19, 23} \<longrightarrow>
            (\<exists>s'. builtin_kill ev c s = Inr s' \<and>
                  signals_sent s' = signals_sent s @
                    [(pg, if atoi digits \<in> {17, 19, 23} then SIGSTOP else atoi digits)] \<and>
                  heap s' = heap s \<and> job_list s' = job_list s)) \<and>
         (atoi digits \<notin> {1, 2, 3, 6, 9, 15, 17, 19, 23} \<longrightarrow>
            (\<exists>s'. builtin_kill ev c s = Inr s' \<and> signals_sent s' = signals_sent s \<and>
                  out s' = out s @ ''kill: usage: kill [-SIGNAL] [jid]'' @ newline \<and>
                  heap s' = heap s \<and> job_list s' = job_list s))"
proof -
  have n: "\<not> length (argv c) < 2" "\<not> length (argv c) < 3" using assms(1) by simp_all
  have a2: "argv c ! Suc 0 = dash # digits" using assms(2) by simp
  have tgt: "kill_target (atoi (argv c ! 2)) s = Inr pg"
    using assms(3,4,5) by (simp add: kill_target_def)
  have allowed: "kill_allowed (atoi digits) \<longleftrightarrow> atoi digits \<in> {1, 2, 3, 6, 9, 15, 17, 19, 23}"
    by (simp add: kill_allowed_def)
  show ?thesis
  proof (intro conjI impI)
    assume "atoi digits \<in> {1, 2, 3, 6, 9, 15, 17, 19, 23}"
    then consider "atoi digits = 1" | "atoi digits = 2" | "atoi digits = 3" | "atoi digits = 6"
      | "atoi digits = 9" | "atoi digits = 15" | "atoi digits = 17" | "atoi digits = 19"
      | "atoi digits = 23" by auto
    then show "\<exists>s'. builtin_kill ev c s = Inr s' \<and>
                  signals_sent s' = signals_sent s @
                    [(pg, if atoi digits \<in> {17, 19, 23} then SIGSTOP else atoi digits)] \<and>
                  heap s' = heap s \<and> job_list s' = job_list s"
      by cases
        (simp_all add: builtin_kill_def n a2 tgt Let_def kill_allowed_def kill_signal_def
          kill_signal_name_def killpg_def printf_def perror_def SIGHUP_def SIGINT_def SIGQUIT_def
          SIGABRT_def SIGKILL_def SIGTERM_def SIGSTOP_def)
  next
    assume "atoi digits \<notin> {1, 2, 3, 6, 9, 15, 17, 19, 23}"
    then have "\<not> kill_allowed (atoi digits)" using allowed by simp
    then show "\<exists>s'. builtin_kill ev c s = Inr s' \<and> signals_sent s' = signals_sent s \<and>
                  out s' = out s @ ''kill: usage: kill [-SIGNAL] [jid]'' @ newline \<and>
                  heap s' = heap s \<and> job_list s' = job_list s"
      by (simp add: builtin_kill_def n a2 tgt Let_def printf_def perror_def)
  qed
qed

text \<open>
  Four runs on job 1, led by pid 100.  The number is the \<open>int\<close> that \<open>atoi\<close> yields, so
  \<open>-4294967305\<close> is read as 9.
\<close>

lemma kill_examples:
  "sent_by (builtin_kill env_quiet (cmd_of [''kill'', ''-9'', ''1'']) shell_one) = [(100, 9)]"
  "sent_by (builtin_kill env_quiet (cmd_of [''kill'', ''-17'', ''1'']) shell_one) = [(100, 19)]"
  "sent_by (builtin_kill env_quiet (cmd_of [''kill'', ''-4294967305'', ''1'']) shell_one) = [(100, 9)]"
  "sent_by (builtin_kill env_quiet (cmd_of [''kill'', ''-4'', ''1'']) shell_one) = []"
  "printed_by (builtin_kill env_quiet (cmd_of [''kill'', ''-4'', ''1'']) shell_one) =
     ''kill: usage: kill [-SIGNAL] [jid]'' @ newline"
  by (simp_all add: builtin_kill_def kill_target_def job_with_jid_def killpg_def kill_allowed_def
      kill_signal_def kill_signal_name_def SIGSTOP_def SIGKILL_def printf_def perror_def
      sent_by_def printed_by_def atoi_defs Let_def fixture_defs)

text \<open>For an id that names no job, \<open>stop\<close> prints a message and changes nothing else.\<close>

lemma stop_unknown_job_reports:
  "check_for_builtin env_quiet (cmd_of [''stop'', ''7'']) shell_one =
     Inr (1, shell_one\<lparr>out := ''stop 7: No such job'' @ newline\<rparr>)"
  by (simp add: check_for_builtin_def ran_builtin_def builtin_stop_def arg_def job_with_jid_def
      atoi_defs Let_def printf_def fixture_defs)


text \<open>
  Claim C7.  Every \<open>kill\<close> with an explicit signal number is to send the signal to the
  job's process group when the number is on the allow-list, and otherwise to print
  the usage line and send nothing.  When the id names no job, the code does neither:
  with job 1 as the only job, \<open>kill -4 7\<close> and \<open>kill -9 7\<close> read through the null job
  pointer before the number is looked at, and the shell dies of the fault.
\<close>

theorem kill_unknown_job_faults:
  "check_for_builtin env_quiet (cmd_of [''kill'', ''-4'', ''7'']) shell_one = Inl Segfault \<and>
   check_for_builtin env_quiet (cmd_of [''kill'', ''-9'', ''7'']) shell_one = Inl Segfault"
  by (simp add: check_for_builtin_def ran_builtin_def builtin_kill_def kill_target_def
      job_with_jid_def atoi_defs Let_def fixture_defs)

subsection \<open>C8: the \<open>jobs\<close> listing\<close>

text \<open>
  Claim C8 as stated, on a registry holding one \<open>DONE\<close> job with id 3 and command line
  \<open>sleep 100\<close>: the listing is \<open>[3]\<close>, a tab, \<open>Done\<close> and a newline; the command line is
  not part of it.
\<close>

theorem done_job_listed_without_command:
  "printed_by (print_all_jobs shell_done) = ''[3]'' @ tab @ ''Done'' @ newline \<and>
   print_cmdline (pipe job_done) = Inr ''sleep 100'' \<and>
   \<not> occurs_in ''sleep 100'' (printed_by (print_all_jobs shell_done))"
proof -
  have p: "printed_by (print_all_jobs shell_done) = ''[3]'' @ tab @ ''Done'' @ newline"
    by (simp add: printed_by_def print_all_jobs_def print_job_def show_int_def show_nat.simps
        digit_char_def delete_job_def list_remove_def printf_def MAXJOBS_def Let_def listing_defs)
  have c: "print_cmdline (pipe job_done) = Inr ''sleep 100''"
    by (simp add: print_cmdline_def cmd_text_def listing_defs)
  have n: "\<not> occurs_in ''sleep 100'' (''[3]'' @ tab @ ''Done'' @ newline)"
    by (simp add: tab_def newline_def)
  show ?thesis using p c n by simp
qed

text \<open>
  Claim C8, amended.  On a well-formed, printable registry \<open>jobs\<close> returns normally and
  writes one line per registered job, in list order.  For a job that is neither
  \<open>TERMINATED\<close> nor \<open>DONE\<close> the line holds the id in brackets, the human-readable
  status and the reconstructed command line in parentheses, and the job stays
  registered unchanged.  For a \<open>DONE\<close> job the line holds the id in brackets and \<open>Done\<close>
  and no command line; for a \<open>TERMINATED\<close> job it is only the message for the
  termination signal.  Every \<open>DONE\<close> or \<open>TERMINATED\<close> job is removed: it is off the list,
  freed, and its id resolves to nothing.
\<close>

theorem jobs_listing:
  assumes "registry_ok s" and "jobs_printable s"
  shows "\<exists>s'. print_all_jobs s = Inr s' \<and>
      out s' = out s @ concat (map (listing_line s) (job_list s)) \<and>
      job_list s' = filter (\<lambda>a. \<not> job_finished s a) (job_list s) \<and>
      (\<forall>a \<in> set (job_list s). \<exists>j line. heap s a = Some j \<and> print_cmdline (pipe j) = Inr line \<and>
         (if status j = TERMINATED
          then listing_line s a = print_error_message (termination_code j) \<and>
               a \<notin> set (job_list s') \<and> heap s' a = None \<and> get_job_from_jid (jid j) s' = None
          else if status j = DONE
          then listing_line s a = ''['' @ show_int (jid j) @ '']'' @ tab @ ''Done'' @ newline \<and>
               a \<notin> set (job_list s') \<and> heap s' a = None \<and> get_job_from_jid (jid j) s' = None
          else listing_line s a =
                 ''['' @ show_int (jid j) @ '']'' @ tab @ get_status (status j) @ tab @ tab @
                 ''('' @ line @ '')'' @ newline \<and>
               a \<in> set (job_list s') \<and> heap s' a = Some j \<and>
               get_job_from_jid (jid j) s' = Some a))"
proof -
  have dist: "distinct (job_list s)" using assms(1) by (simp add: registry_ok_def)
  obtain s' where s': "print_jobs_from (job_list s) s = Inr s'" "registry_ok s'"
    "out s' = out s @ concat (map (listing_line s) (job_list s))"
    "job_list s' = filter (\<lambda>b. \<not> (b \<in> set (job_list s) \<and> job_finished s b)) (job_list s)"
    "heap s' = (\<lambda>b. if b \<in> set (job_list s) \<and> job_finished s b then None else heap s b)"
    "\<forall>b \<in> set (job_list s). \<forall>j. job_finished s b \<and> heap s b = Some j \<longrightarrow> jid2job s' (jid j) = None"
    using print_jobs_from_result [OF assms dist subset_refl] by blast
  have jl: "job_list s' = filter (\<lambda>a. \<not> job_finished s a) (job_list s)"
    unfolding s'(4) by (intro filter_cong refl) auto
  have each: "\<exists>j line. heap s a = Some j \<and> print_cmdline (pipe j) = Inr line \<and>
         (if status j = TERMINATED
          then listing_line s a = print_error_message (termination_code j) \<and>
               a \<notin> set (job_list s') \<and> heap s' a = None \<and> get_job_from_jid (jid j) s' = None
          else if status j = DONE
          then listing_line s a = ''['' @ show_int (jid j) @ '']'' @ tab @ ''Done'' @ newline \<and>
               a \<notin> set (job_list s') \<and> heap s' a = None \<and> get_job_from_jid (jid j) s' = None
          else listing_line s a =
                 ''['' @ show_int (jid j) @ '']'' @ tab @ get_status (status j) @ tab @ tab @
                 ''('' @ line @ '')'' @ newline \<and>
               a \<in> set (job_list s') \<and> heap s' a = Some j \<and>
               get_job_from_jid (jid j) s' = Some a)"
    if a: "a \<in> set (job_list s)" for a
  proof -
    obtain j where j: "heap s a = Some j" using registry_ok_live [OF assms(1) a] by blast
    have "\<forall>c \<in> set (commands (pipe j)). argv c \<noteq> []"
      using assms(2) a j unfolding jobs_printable_def by fastforce
    then obtain line where line: "print_cmdline (pipe j) = Inr line"
      using print_cmdline_from_total [of "commands (pipe j)" True] by (auto simp: print_cmdline_def)
    show ?thesis
    proof (cases "status j = TERMINATED \<or> status j = DONE")
      case True
      then have fin: "job_finished s a" using j by (simp add: job_finished_def)
      have "jid2job s' (jid j) = None" using s'(6) a fin j by blast
      then have g: "get_job_from_jid (jid j) s' = None" by (simp add: get_job_from_jid_def)
      have h: "heap s' a = None" using a fin by (simp add: s'(5))
      have n: "a \<notin> set (job_list s')" using fin by (simp add: jl)
      have "listing_line s a = (if status j = TERMINATED
           then print_error_message (termination_code j)
           else ''['' @ show_int (jid j) @ '']'' @ tab @ ''Done'' @ newline)"
        using True j by (auto simp: listing_line_def print_job_def)
      then show ?thesis using True j line g h n by (intro exI [of _ j] exI [of _ line]) auto
    next
      case False
      then have nf: "\<not> job_finished s a" using j by (simp add: job_finished_def)
      have h: "heap s' a = Some j" using nf j by (simp add: s'(5))
      have m: "a \<in> set (job_list s')" using nf a by (simp add: jl)
      note p = registry_ok_job [OF s'(2) m h]
      have g: "get_job_from_jid (jid j) s' = Some a" using p by (simp add: get_job_from_jid_def)
      have "listing_line s a = ''['' @ show_int (jid j) @ '']'' @ tab @ get_status (status j) @
          tab @ tab @ ''('' @ line @ '')'' @ newline"
        using False j line by (simp add: listing_line_def print_job_def)
      then show ?thesis using False j line g h m by (intro exI [of _ j] exI [of _ line]) auto
    qed
  qed
  show ?thesis using s'(1,3) jl each unfolding print_all_jobs_def by blast
qed

theorem jobs_listing_witness:
  "registry_ok shell_listing \<and> jobs_printable shell_listing \<and>
   (\<exists>s'. print_all_jobs shell_listing = Inr s' \<and> job_list s' = [2] \<and>
      out s' = ''[2]'' @ tab @ ''Running'' @ tab @ tab @ ''(ls -l| wc)'' @ newline @
               ''[3]'' @ tab @ ''Done'' @ newline)"
proof -
  have f: "job_finished shell_listing 3" "\<not> job_finished shell_listing 2"
    by (simp_all add: job_finished_def listing_defs)
  have l2: "listing_line shell_listing 2 =
      ''[2]'' @ tab @ ''Running'' @ tab @ tab @ ''(ls -l| wc)'' @ newline"
    by (simp add: listing_line_def print_job_def print_cmdline_def cmd_text_def get_status_def
        show_int_def show_nat.simps digit_char_def listing_defs)
  have l3: "listing_line shell_listing 3 = ''[3]'' @ tab @ ''Done'' @ newline"
    by (simp add: listing_line_def print_job_def show_int_def show_nat.simps digit_char_def
        listing_defs)
  have jl: "job_list shell_listing = [2, 3]" "out shell_listing = []"
    by (simp_all add: listing_defs)
  from jobs_listing [OF shell_listing_ok]
  obtain s' where s': "print_all_jobs shell_listing = Inr s'"
    "out s' = out shell_listing @ concat (map (listing_line shell_listing) (job_list shell_listing))"
    "job_list s' = filter (\<lambda>a. \<not> job_finished shell_listing a) (job_list shell_listing)"
    by blast
  have "job_list s' = [2]" using s'(3) f by (simp add: jl)
  moreover have "out s' = ''[2]'' @ tab @ ''Running'' @ tab @ tab @ ''(ls -l| wc)'' @ newline @
               ''[3]'' @ tab @ ''Done'' @ newline"
    unfolding s'(2) jl by (simp add: l2 l3)
  ultimately show ?thesis using s'(1) shell_listing_ok by blast
qed


subsection \<open>C4: at most one foreground job\<close>

text \<open>
  Claim C4.  Start from a registry with no job in the foreground, as the registry is at
  every prompt.  Then a whole \<open>iterate_over_pipeline\<close> that returns to the read loop
  leaves no job in the foreground, and so does a run of the \<open>SIGCHLD\<close> handler between
  commands.  Inside, the status \<open>FOREGROUND\<close> is written at two places only, each
  followed at once by the wait loop: by \<open>fg\<close> on the job found, and by the spawner on
  the job just registered; in every state in which that wait loop tests its condition
  at most one registered job is in the foreground.
\<close>

theorem foreground_unique:
  assumes "no_foreground s"
  shows "(iterate_over_pipeline ev p s = Inr (k, s') \<longrightarrow> no_foreground s') \<and>
         (sigchld_handler evs s = Inr s'' \<longrightarrow> no_foreground s'') \<and>
         (\<forall>u \<in> set (wait_loop_states a evs (set_status a FOREGROUND s)).
            at_most_one_foreground u) \<and>
         (register_job ev p pids s = Inr (b, t) \<longrightarrow>
            (\<forall>u \<in> set (wait_loop_states b evs t). at_most_one_foreground u))"
proof (intro conjI impI)
  assume "iterate_over_pipeline ev p s = Inr (k, s')"
  then show "no_foreground s'" using assms iterate_over_pipeline_no_foreground by blast
next
  assume "sigchld_handler evs s = Inr s''"
  then show "no_foreground s''" using assms sigchld_handler_no_foreground by blast
next
  have "at_most_one_foreground (set_status a FOREGROUND s)"
    using set_status_foreground_others [OF assms] by (rule others_at_most_one)
  then show "\<forall>u \<in> set (wait_loop_states a evs (set_status a FOREGROUND s)).
      at_most_one_foreground u"
    by (rule wait_loop_states_at_most_one)
next
  assume "register_job ev p pids s = Inr (b, t)"
  then have "at_most_one_foreground t"
    using register_job_others [OF assms] others_at_most_one by blast
  then show "\<forall>u \<in> set (wait_loop_states b evs t). at_most_one_foreground u"
    by (rule wait_loop_states_at_most_one)
qed

theorem foreground_unique_witness:
  "no_foreground shell_bg \<and>
   (\<exists>s'. iterate_over_pipeline env_exits pipe_sleep shell_bg = Inr (0, s') \<and> no_foreground s') \<and>
   (\<exists>s''. sigchld_handler [(200, Exited 0)] shell_bg = Inr s'' \<and> no_foreground s'') \<and>
   at_most_one_foreground (set_status 2 FOREGROUND shell_bg) \<and>
   (\<exists>b t. register_job env_exits pipe_sleep [300] shell_bg = Inr (b, t) \<and>
      at_most_one_foreground t)"
proof -
  note h = shell_bg_no_foreground
  obtain u1 where u1: "iterate_over_pipeline env_exits pipe_sleep shell_bg = Inr (0, u1)"
    using shell_bg_run by blast
  obtain u2 where u2: "sigchld_handler [(200, Exited 0)] shell_bg = Inr u2"
    using shell_bg_handler by blast
  obtain b t where t: "register_job env_exits pipe_sleep [300] shell_bg = Inr (b, t)"
    using shell_bg_register by blast
  note inst = foreground_unique [OF h, of env_exits pipe_sleep 0 u1 "[(200, Exited 0)]" u2
      2 "[300]" b t]
  have first: "set_status 2 FOREGROUND shell_bg \<in>
      set (wait_loop_states 2 [(200, Exited 0)] (set_status 2 FOREGROUND shell_bg))"
    by (rule wait_loop_states_first)
  have firstt: "t \<in> set (wait_loop_states b [(200, Exited 0)] t)"
    by (rule wait_loop_states_first)
  have "no_foreground u1" using inst u1 by blast
  moreover have "no_foreground u2" using inst u2 by blast
  moreover have "at_most_one_foreground (set_status 2 FOREGROUND shell_bg)"
    using inst first by blast
  moreover have "at_most_one_foreground t" using inst t firstt by blast
  ultimately show ?thesis using h u1 u2 t by blast
qed

end
